theory Spec2Isabelle
  imports Complex_Main "HOL-Library.Multiset"
begin

section \<open>F1 race replay: data model\<close>

text \<open>
  The replay engine lives in \<^verbatim>\<open>src/arcade_replay.py\<close>. Finite Python floats are
  modelled as \<^typ>\<open>real\<close> (exact arithmetic: no rounding and no overflow), Python
  integers as \<^typ>\<open>int\<close>, strings as \<^typ>\<open>string\<close>. A Python exception is a value of
  \<open>error\<close> on the left of a sum.
\<close>

datatype error = ValueError | ZeroDivisionError | OverflowError

text \<open>
  The playback speed is a float that the command line supplies (\<^verbatim>\<open>--speed\<close>,
  \<^verbatim>\<open>type=float\<close> in \<^verbatim>\<open>main.py\<close>), and \<^verbatim>\<open>float\<close> also reads \<^verbatim>\<open>inf\<close>,
  \<^verbatim>\<open>-inf\<close> and \<^verbatim>\<open>nan\<close>. The speed is therefore a finite value or one of the three
  special values. (In the source, repeated doubling of a finite speed also overflows to
  \<^verbatim>\<open>inf\<close>; finite arithmetic here is exact, so the special values enter only as
  given.)
\<close>

datatype pyfloat = Finite real | PosInf | NegInf | NaN

definition bind_res :: "error + 'a \<Rightarrow> ('a \<Rightarrow> error + 'b) \<Rightarrow> error + 'b" where
  "bind_res m f = (case m of Inl e \<Rightarrow> Inl e | Inr v \<Rightarrow> f v)"

text \<open>
  One driver's entry of a frame is a Python dict read with \<^verbatim>\<open>pos.get(key, default)\<close>:
  a key may be absent, so every field is optional. The keys are \<^verbatim>\<open>x\<close>, \<^verbatim>\<open>y\<close>,
  \<^verbatim>\<open>lap\<close>, \<^verbatim>\<open>dist\<close> and \<^verbatim>\<open>rel_dist\<close>; the field for \<^verbatim>\<open>dist\<close> is written
  \<open>dist'\<close>, since HOL has a constant of that name.
\<close>

record pos =
  pos_x :: "real option"
  pos_y :: "real option"
  lap :: "int option"
  dist' :: "real option"
  rel_dist :: "real option"

text \<open>
  \<^verbatim>\<open>frame["drivers"]\<close> is a dict; iteration follows insertion order, so it is an
  association list whose keys are distinct.
\<close>

record frame =
  t :: real
  drivers :: "(string \<times> pos) list"

type_synonym color = "nat \<times> nat \<times> nat \<times> nat"

text \<open>\<^verbatim>\<open>arcade.color.WHITE\<close>, the fallback colour of a driver without an entry.\<close>

definition WHITE :: color where
  "WHITE = (255, 255, 255, 255)"

text \<open>
  The fields of \<^verbatim>\<open>F1ReplayWindow\<close> that the methods below read or write. (The
  driver list and the background texture are stored by \<^verbatim>\<open>__init__\<close> and play no part
  in them.)
\<close>

record window =
  frames :: "frame list"
  n_frames :: int
  playback_speed :: pyfloat
  driver_colors :: "string \<rightharpoonup> color"
  frame_index :: int
  paused :: bool
  plot_x_ref :: "real list"
  plot_y_ref :: "real list"
  x_inner :: "real list"
  y_inner :: "real list"
  x_outer :: "real list"
  y_outer :: "real list"
  x_min :: real
  x_max :: real
  y_min :: real
  y_max :: real
  world_inner_points :: "(real \<times> real) list"
  world_outer_points :: "(real \<times> real) list"
  screen_inner_points :: "(real \<times> real) list"
  screen_outer_points :: "(real \<times> real) list"
  world_scale :: real
  tx :: real
  ty :: real
  width :: real
  height :: real

section \<open>Playback controller\<close>

text \<open>Python's \<^verbatim>\<open>int(x)\<close> on a finite float truncates towards zero.\<close>

definition py_int :: "real \<Rightarrow> int" where
  "py_int r = (if 0 \<le> r then \<lfloor>r\<rfloor> else \<lceil>r\<rceil>)"

text \<open>
  On an infinite float \<^verbatim>\<open>int(x)\<close> raises \<^verbatim>\<open>OverflowError\<close>, on NaN
  \<^verbatim>\<open>ValueError\<close>.
\<close>

fun int_of_float :: "pyfloat \<Rightarrow> error + int" where
  "int_of_float (Finite r) = Inr (py_int r)"
| "int_of_float PosInf = Inl OverflowError"
| "int_of_float NegInf = Inl OverflowError"
| "int_of_float NaN = Inl ValueError"

text \<open>Multiplication and division of a float by a positive literal.\<close>

fun float_mul :: "pyfloat \<Rightarrow> real \<Rightarrow> pyfloat" where
  "float_mul (Finite s) c = Finite (s * c)"
| "float_mul PosInf c = PosInf"
| "float_mul NegInf c = NegInf"
| "float_mul NaN c = NaN"

fun float_div :: "pyfloat \<Rightarrow> real \<Rightarrow> pyfloat" where
  "float_div (Finite s) c = Finite (s / c)"
| "float_div PosInf c = PosInf"
| "float_div NegInf c = NegInf"
| "float_div NaN c = NaN"

text \<open>
  \<^verbatim>\<open>max(a, x)\<close> for a literal \<open>a\<close>: Python keeps \<open>a\<close> unless \<^verbatim>\<open>x > a\<close>, and every
  comparison with NaN is false.
\<close>

fun float_max :: "real \<Rightarrow> pyfloat \<Rightarrow> pyfloat" where
  "float_max a (Finite v) = (if v > a then Finite v else Finite a)"
| "float_max a PosInf = PosInf"
| "float_max a NegInf = Finite a"
| "float_max a NaN = Finite a"

text \<open>
  \<^verbatim>\<open>on_update\<close>: return at once when paused; otherwise add the step and pull an index
  at or beyond \<^verbatim>\<open>n_frames\<close> back to the last frame. The conversion of the speed comes
  first: when it raises, nothing has been assigned.
\<close>

definition on_update :: "window \<Rightarrow> error + window" where
  "on_update w =
     (if paused w then Inr w
      else
        bind_res (int_of_float (playback_speed w)) (\<lambda>k.
          let step = max 1 k;
              i = frame_index w + step
          in if i \<ge> n_frames w then Inr (w\<lparr>frame_index := n_frames w - 1\<rparr>)
             else Inr (w\<lparr>frame_index := i\<rparr>)))"

text \<open>A run of \<open>k\<close> ticks; it stops at the first tick that raises.\<close>

fun ticks :: "nat \<Rightarrow> window \<Rightarrow> error + window" where
  "ticks 0 w = Inr w"
| "ticks (Suc k) w = bind_res (ticks k w) on_update"

text \<open>The key symbols \<^verbatim>\<open>on_key_press\<close> tests, in its order; any other symbol is \<open>OTHER\<close>.\<close>

datatype key = SPACE | RIGHT | LEFT | UP | DOWN | KEY_1 | KEY_2 | KEY_3 | KEY_4 | OTHER

fun on_key_press :: "window \<Rightarrow> key \<Rightarrow> window" where
  "on_key_press w SPACE = w\<lparr>paused := \<not> paused w\<rparr>"
| "on_key_press w RIGHT = w\<lparr>frame_index := min (frame_index w + 10) (n_frames w - 1)\<rparr>"
| "on_key_press w LEFT = w\<lparr>frame_index := max (frame_index w - 10) 0\<rparr>"
| "on_key_press w UP = w\<lparr>playback_speed := float_mul (playback_speed w) 2\<rparr>"
| "on_key_press w DOWN =
     w\<lparr>playback_speed := float_max (1 / 10) (float_div (playback_speed w) 2)\<rparr>"
| "on_key_press w KEY_1 = w\<lparr>playback_speed := Finite (1 / 2)\<rparr>"
| "on_key_press w KEY_2 = w\<lparr>playback_speed := Finite 1\<rparr>"
| "on_key_press w KEY_3 = w\<lparr>playback_speed := Finite 2\<rparr>"
| "on_key_press w KEY_4 = w\<lparr>playback_speed := Finite 4\<rparr>"
| "on_key_press w OTHER = w"

text \<open>The controller's operations: the periodic tick and a key press.\<close>

datatype operation = Tick | Key key

fun apply_operation :: "window \<Rightarrow> operation \<Rightarrow> error + window" where
  "apply_operation w Tick = on_update w"
| "apply_operation w (Key k) = Inr (on_key_press w k)"

text \<open>
  The window object after an operation: the updated window when the call returns, the
  window as it was when the call raises (a tick that raises has assigned nothing).
\<close>

definition state_after :: "window \<Rightarrow> operation \<Rightarrow> window" where
  "state_after w opn = (case apply_operation w opn of Inl e \<Rightarrow> w | Inr w' \<Rightarrow> w')"

text \<open>The spec's \<open>clamp(v, lo, hi)\<close>, for comparison with the two seek branches.\<close>

definition clamp :: "int \<Rightarrow> int \<Rightarrow> int \<Rightarrow> int" where
  "clamp v lo hi = max lo (min v hi)"

text \<open>
  Concrete windows for the playback examples: no geometry, \<open>n\<close> frames, index \<open>i\<close>, a
  speed that is any float, or a finite one.
\<close>

definition float_window :: "int \<Rightarrow> int \<Rightarrow> pyfloat \<Rightarrow> bool \<Rightarrow> window" where
  "float_window n i x p =
     \<lparr>frames = [], n_frames = n, playback_speed = x, driver_colors = Map.empty,
      frame_index = i, paused = p,
      plot_x_ref = [], plot_y_ref = [], x_inner = [], y_inner = [], x_outer = [], y_outer = [],
      x_min = 0, x_max = 0, y_min = 0, y_max = 0,
      world_inner_points = [], world_outer_points = [],
      screen_inner_points = [], screen_outer_points = [],
      world_scale = 1, tx = 0, ty = 0, width = 1920, height = 1200\<rparr>"

definition playback_window :: "int \<Rightarrow> int \<Rightarrow> real \<Rightarrow> bool \<Rightarrow> window" where
  "playback_window n i s p = float_window n i (Finite s) p"

section \<open>Coordinate transform\<close>

text \<open>
  A division whose divisor is computed from the data is checked: a zero divisor is the
  error \<open>ZeroDivisionError\<close>. (Python raises it on floats; numpy warns and yields
  \<^verbatim>\<open>inf\<close> or \<^verbatim>\<open>nan\<close>. The model reports both as the error, so that a division by zero
  is visible in the result.) A division by a literal such as \<^verbatim>\<open>/ 2\<close> is written \<open>/\<close>.
\<close>

definition py_div :: "real \<Rightarrow> real \<Rightarrow> error + real" where
  "py_div a b = (if b = 0 then Inl ZeroDivisionError else Inr (a / b))"

text \<open>\<^verbatim>\<open>world_to_screen\<close> reads the window and returns a pair; it assigns nothing.\<close>

definition world_to_screen :: "window \<Rightarrow> real \<Rightarrow> real \<Rightarrow> real \<times> real" where
  "world_to_screen w x y = (world_scale w * x + tx w, world_scale w * y + ty w)"

text \<open>
  \<^verbatim>\<open>update_scaling\<close> (the spec's \<open>recompute\<close>): the assignments in source order. The two
  list comprehensions at the end run after \<^verbatim>\<open>world_scale\<close>, \<^verbatim>\<open>tx\<close> and \<^verbatim>\<open>ty\<close> are set.
\<close>

definition update_scaling :: "window \<Rightarrow> real \<Rightarrow> real \<Rightarrow> error + window" where
  "update_scaling w screen_w screen_h =
     (let padding = 5 / 100;
          world_w = max 1 (x_max w - x_min w);
          world_h = max 1 (y_max w - y_min w);
          usable_w = screen_w * (1 - 2 * padding);
          usable_h = screen_h * (1 - 2 * padding)
      in bind_res (py_div usable_w world_w) (\<lambda>scale_x.
         bind_res (py_div usable_h world_h) (\<lambda>scale_y.
           let w1 = w\<lparr>world_scale := min scale_x scale_y\<rparr>;
               world_cx = (x_min w1 + x_max w1) / 2;
               world_cy = (y_min w1 + y_max w1) / 2;
               screen_cx = screen_w / 2;
               screen_cy = screen_h / 2;
               w2 = w1\<lparr>tx := screen_cx - world_scale w1 * world_cx\<rparr>;
               w3 = w2\<lparr>ty := screen_cy - world_scale w2 * world_cy\<rparr>;
               w4 = w3\<lparr>screen_inner_points :=
                         map (\<lambda>(x, y). world_to_screen w3 x y) (world_inner_points w3)\<rparr>;
               w5 = w4\<lparr>screen_outer_points :=
                         map (\<lambda>(x, y). world_to_screen w4 x y) (world_outer_points w4)\<rparr>
           in Inr w5)))"

text \<open>\<^verbatim>\<open>on_resize\<close>: the base class records the new size, then the scaling is redone.\<close>

definition on_resize :: "window \<Rightarrow> real \<Rightarrow> real \<Rightarrow> error + window" where
  "on_resize w width' height' = update_scaling (w\<lparr>width := width', height := height'\<rparr>) width' height'"

text \<open>The fit scale the spec names: the smaller of the x-fit and y-fit factors.\<close>

definition fit_scale :: "window \<Rightarrow> real \<Rightarrow> real \<Rightarrow> real" where
  "fit_scale w screen_w screen_h =
     min (screen_w * (1 - 2 * (5 / 100)) / max 1 (x_max w - x_min w))
         (screen_h * (1 - 2 * (5 / 100)) / max 1 (y_max w - y_min w))"

text \<open>A concrete window for the viewport examples: a 400 by 100 world box.\<close>

definition viewport_window :: window where
  "viewport_window =
     \<lparr>frames = [], n_frames = 0, playback_speed = Finite 1, driver_colors = Map.empty,
      frame_index = 0, paused = False,
      plot_x_ref = [], plot_y_ref = [], x_inner = [], y_inner = [], x_outer = [], y_outer = [],
      x_min = 100, x_max = 500, y_min = 0, y_max = 100,
      world_inner_points = [(100, 0), (500, 100)], world_outer_points = [(300, 50)],
      screen_inner_points = [], screen_outer_points = [],
      world_scale = 1, tx = 0, ty = 0, width = 1920, height = 1200\<rparr>"

section \<open>Track geometry\<close>

text \<open>
  The numpy routines the source calls are modelled from numpy's documented behaviour.
  \<^verbatim>\<open>np.gradient\<close> of a one-dimensional array with unit spacing: central differences
  inside, one-sided first differences at the two ends; an array of fewer than two
  elements is rejected with \<^verbatim>\<open>ValueError\<close>.
\<close>

definition gradient_at :: "real list \<Rightarrow> nat \<Rightarrow> real" where
  "gradient_at f i =
     (if i = 0 then f ! 1 - f ! 0
      else if i = length f - 1 then f ! (length f - 1) - f ! (length f - 2)
      else (f ! (i + 1) - f ! (i - 1)) / 2)"

definition np_gradient :: "real list \<Rightarrow> error + real list" where
  "np_gradient f =
     (if length f < 2 then Inl ValueError else Inr (map (gradient_at f) [0..<length f]))"

text \<open>\<^verbatim>\<open>np.sqrt(dx**2 + dy**2)\<close>, element by element.\<close>

definition tangent_norm :: "real list \<Rightarrow> real list \<Rightarrow> real list" where
  "tangent_norm dx dy = map2 (\<lambda>a b. sqrt (a\<^sup>2 + b\<^sup>2)) dx dy"

text \<open>\<^verbatim>\<open>norm[norm == 0] = 1.0\<close>.\<close>

definition guard_zero :: "real list \<Rightarrow> real list" where
  "guard_zero norm' = map (\<lambda>n. if n = 0 then 1 else n) norm'"

text \<open>
  \<^verbatim>\<open>dx /= norm\<close>: element-wise division of two arrays of the same shape, each division
  checked. (Arrays of different lengths do not occur here; numpy rejects them.)
\<close>

fun div_arrays :: "real list \<Rightarrow> real list \<Rightarrow> error + real list" where
  "div_arrays [] [] = Inr []"
| "div_arrays (a # as) (b # bs) =
     bind_res (py_div a b) (\<lambda>q. bind_res (div_arrays as bs) (\<lambda>qs. Inr (q # qs)))"
| "div_arrays _ _ = Inl ValueError"

text \<open>\<^verbatim>\<open>a.min()\<close> and \<^verbatim>\<open>a.max()\<close>; numpy rejects an empty array.\<close>

definition np_min :: "real list \<Rightarrow> error + real" where
  "np_min xs = (case xs of [] \<Rightarrow> Inl ValueError | x # r \<Rightarrow> Inr (fold min r x))"

definition np_max :: "real list \<Rightarrow> error + real" where
  "np_max xs = (case xs of [] \<Rightarrow> Inl ValueError | x # r \<Rightarrow> Inr (fold max r x))"

definition min3 :: "real list \<Rightarrow> real list \<Rightarrow> real list \<Rightarrow> error + real" where
  "min3 a b c =
     bind_res (np_min a) (\<lambda>x. bind_res (np_min b) (\<lambda>y. bind_res (np_min c) (\<lambda>z.
       Inr (min x (min y z)))))"

definition max3 :: "real list \<Rightarrow> real list \<Rightarrow> real list \<Rightarrow> error + real" where
  "max3 a b c =
     bind_res (np_max a) (\<lambda>x. bind_res (np_max b) (\<lambda>y. bind_res (np_max c) (\<lambda>z.
       Inr (max x (max y z)))))"

type_synonym track =
  "real list \<times> real list \<times> real list \<times> real list \<times> real list \<times> real list
     \<times> real \<times> real \<times> real \<times> real"

text \<open>
  \<^verbatim>\<open>build_track_from_example_lap\<close>. The lap is the list of the telemetry rows, so the
  \<^verbatim>\<open>X\<close> and \<^verbatim>\<open>Y\<close> columns have the same length. The result is the tuple the source
  returns: centreline x and y, inner x and y, outer x and y, and the four bounds.
\<close>

definition build_track_from_example_lap :: "(real \<times> real) list \<Rightarrow> real \<Rightarrow> error + track" where
  "build_track_from_example_lap example_lap track_width =
     (let plot_x_ref = map fst example_lap;
          plot_y_ref = map snd example_lap
      in bind_res (np_gradient plot_x_ref) (\<lambda>dx0.
         bind_res (np_gradient plot_y_ref) (\<lambda>dy0.
         let norm' = guard_zero (tangent_norm dx0 dy0)
         in bind_res (div_arrays dx0 norm') (\<lambda>dx.
            bind_res (div_arrays dy0 norm') (\<lambda>dy.
            let nx = map uminus dy;
                ny = dx;
                x_outer' = map2 (\<lambda>p n. p + n * (track_width / 2)) plot_x_ref nx;
                y_outer' = map2 (\<lambda>p n. p + n * (track_width / 2)) plot_y_ref ny;
                x_inner' = map2 (\<lambda>p n. p - n * (track_width / 2)) plot_x_ref nx;
                y_inner' = map2 (\<lambda>p n. p - n * (track_width / 2)) plot_y_ref ny
            in bind_res (min3 plot_x_ref x_inner' x_outer') (\<lambda>x_min'.
               bind_res (max3 plot_x_ref x_inner' x_outer') (\<lambda>x_max'.
               bind_res (min3 plot_y_ref y_inner' y_outer') (\<lambda>y_min'.
               bind_res (max3 plot_y_ref y_inner' y_outer') (\<lambda>y_max'.
                 Inr (plot_x_ref, plot_y_ref, x_inner', y_inner', x_outer', y_outer',
                      x_min', x_max', y_min', y_max'))))))))))"

subsection \<open>Curve resampler\<close>

text \<open>\<^verbatim>\<open>np.linspace(0, 1, n)\<close>.\<close>

definition linspace01 :: "nat \<Rightarrow> real list" where
  "linspace01 n = (if n = 1 then [0] else map (\<lambda>i. real i / real (n - 1)) [0..<n])"

text \<open>
  \<^verbatim>\<open>np.interp(x, xp, fp)\<close> at one point, for increasing \<open>xp\<close> of the length of \<open>fp\<close>:
  the end values outside the range of \<open>xp\<close>, the sample itself at a sample point, and
  otherwise the value on the line through the two neighbouring samples, where \<open>j\<close> is
  the last index with \<open>xp ! j \<le> x\<close>. The slope's division is numpy's own.
\<close>

definition interp_at :: "real list \<Rightarrow> real list \<Rightarrow> real \<Rightarrow> real" where
  "interp_at xp fp x =
     (let n = length xp
      in if x < xp ! 0 then fp ! 0
         else if xp ! (n - 1) < x then fp ! (n - 1)
         else let j = length (takeWhile (\<lambda>v. v \<le> x) xp) - 1
              in if j = n - 1 then fp ! j
                 else if xp ! j = x then fp ! j
                 else (fp ! (j + 1) - fp ! j) / (xp ! (j + 1) - xp ! j) * (x - xp ! j) + fp ! j)"

text \<open>numpy rejects an empty array of sample points.\<close>

definition np_interp :: "real list \<Rightarrow> real list \<Rightarrow> real list \<Rightarrow> error + real list" where
  "np_interp xs xp fp = (if xp = [] then Inl ValueError else Inr (map (interp_at xp fp) xs))"

text \<open>
  \<^verbatim>\<open>_interpolate_points\<close>; the source's default for \<open>interp_points\<close> is 2000. Its two
  callers pass coordinate arrays of the same length.
\<close>

definition interpolate_points ::
  "real list \<Rightarrow> real list \<Rightarrow> nat \<Rightarrow> error + (real \<times> real) list" where
  "interpolate_points xs ys interp_points =
     (let t_old = linspace01 (length xs);
          t_new = linspace01 interp_points
      in bind_res (np_interp t_new t_old xs) (\<lambda>xs_i.
         bind_res (np_interp t_new t_old ys) (\<lambda>ys_i.
           Inr (zip xs_i ys_i))))"

subsection \<open>Window construction\<close>

definition SCREEN_WIDTH :: real where
  "SCREEN_WIDTH = 1920"

definition SCREEN_HEIGHT :: real where
  "SCREEN_HEIGHT = 1200"

text \<open>
  \<^verbatim>\<open>F1ReplayWindow.__init__\<close>: the track is built with the default width 200, the two
  boundaries are resampled with the default 2000 points, and the scaling is computed for
  the initial window size.
\<close>

definition init_window ::
  "frame list \<Rightarrow> (real \<times> real) list \<Rightarrow> pyfloat \<Rightarrow> (string \<rightharpoonup> color) \<Rightarrow> error + window" where
  "init_window frames' example_lap playback_speed' driver_colors' =
     bind_res (build_track_from_example_lap example_lap 200)
       (\<lambda>(px, py, xi, yi, xo, yo, xmin, xmax, ymin, ymax).
     bind_res (interpolate_points xi yi 2000) (\<lambda>inner.
     bind_res (interpolate_points xo yo 2000) (\<lambda>outer.
       update_scaling
         \<lparr>frames = frames', n_frames = int (length frames'), playback_speed = playback_speed',
          driver_colors = driver_colors', frame_index = 0, paused = False,
          plot_x_ref = px, plot_y_ref = py, x_inner = xi, y_inner = yi,
          x_outer = xo, y_outer = yo,
          x_min = xmin, x_max = xmax, y_min = ymin, y_max = ymax,
          world_inner_points = inner, world_outer_points = outer,
          screen_inner_points = [], screen_outer_points = [],
          world_scale = 1, tx = 0, ty = 0,
          width = SCREEN_WIDTH, height = SCREEN_HEIGHT\<rparr>
         SCREEN_WIDTH SCREEN_HEIGHT)))"

text \<open>Euclidean distance between two points of the plane.\<close>

definition distance :: "real \<times> real \<Rightarrow> real \<times> real \<Rightarrow> real" where
  "distance p q = sqrt ((fst p - fst q)\<^sup>2 + (snd p - snd q)\<^sup>2)"

text \<open>
  The spec's unit tangent at sample \<open>i\<close>: the gradient of the two coordinates, divided by
  its length, or left as it is (zero) when the length is zero.
\<close>

definition unit_tangent :: "(real \<times> real) list \<Rightarrow> nat \<Rightarrow> real \<times> real" where
  "unit_tangent lap' i =
     (let gx = gradient_at (map fst lap') i;
          gy = gradient_at (map snd lap') i;
          n = sqrt (gx\<^sup>2 + gy\<^sup>2);
          n' = (if n = 0 then 1 else n)
      in (gx / n', gy / n'))"

text \<open>Laps for the examples: three samples on a straight line, and a single sample.\<close>

definition straight_lap :: "(real \<times> real) list" where
  "straight_lap = [(0, 0), (1, 0), (2, 0)]"

definition single_sample_lap :: "(real \<times> real) list" where
  "single_sample_lap = [(3, 4)]"

section \<open>Renderer: HUD and leaderboard\<close>

subsection \<open>Number formatting\<close>

definition digit :: "nat \<Rightarrow> char" where
  "digit n = ''0123456789'' ! n"

text \<open>The decimal digits of a natural number, most significant first.\<close>

fun digits :: "nat \<Rightarrow> string" where
  "digits n = (if n < 10 then [digit n] else digits (n div 10) @ [digit (n mod 10)])"

declare digits.simps [simp del]

text \<open>\<^verbatim>\<open>str(i)\<close>, as an f-string writes an integer without a format.\<close>

definition str_int :: "int \<Rightarrow> string" where
  "str_int i = (if i < 0 then CHR ''-'' # digits (nat (- i)) else digits (nat i))"

text \<open>\<^verbatim>\<open>f"{i:>2}"\<close>: right-aligned in a field of two, padded with spaces.\<close>

definition fmt_right2 :: "int \<Rightarrow> string" where
  "fmt_right2 i = (let s = str_int i in replicate (2 - length s) CHR '' '' @ s)"

text \<open>\<^verbatim>\<open>f"{i:02}"\<close>: zero-padded to a field of two, the sign before the zeros.\<close>

definition fmt_zero2 :: "int \<Rightarrow> string" where
  "fmt_zero2 i =
     (if i < 0 then (let d = digits (nat (- i)) in CHR ''-'' # replicate (1 - length d) CHR ''0'' @ d)
      else (let d = digits (nat i) in replicate (2 - length d) CHR ''0'' @ d))"

subsection \<open>Leader and HUD\<close>

text \<open>
  The key of \<^verbatim>\<open>max(frame["drivers"], key=...)\<close>: the pair
  \<^verbatim>\<open>(get("lap", 1), get("dist", 0))\<close>. Iterating the dict yields its keys, and
  \<^verbatim>\<open>frame["drivers"][c]\<close> for such a key is the value stored with it, so the key function
  is applied to the entry's value.
\<close>

definition leader_key :: "pos \<Rightarrow> int \<times> real" where
  "leader_key p =
     (case lap p of None \<Rightarrow> 1 | Some l \<Rightarrow> l, case dist' p of None \<Rightarrow> 0 | Some d \<Rightarrow> d)"

text \<open>Python's \<^verbatim>\<open>>\<close> on two pairs: decided by the first components that differ.\<close>

definition tuple_gt :: "int \<times> real \<Rightarrow> int \<times> real \<Rightarrow> bool" where
  "tuple_gt a b = (if fst a \<noteq> fst b then fst a > fst b else snd a > snd b)"

text \<open>
  \<^verbatim>\<open>max\<close> keeps the first item and replaces it only by an item whose key is strictly
  greater, so among equal keys the first one wins.
\<close>

fun py_max_from :: "string \<times> pos \<Rightarrow> (string \<times> pos) list \<Rightarrow> string \<times> pos" where
  "py_max_from best [] = best"
| "py_max_from best (x # xs) =
     py_max_from (if tuple_gt (leader_key (snd x)) (leader_key (snd best)) then x else best) xs"

text \<open>\<^verbatim>\<open>max\<close> of an empty dict raises \<^verbatim>\<open>ValueError\<close>.\<close>

definition leader :: "frame \<Rightarrow> error + string \<times> pos" where
  "leader f = (case drivers f of [] \<Rightarrow> Inl ValueError | x # xs \<Rightarrow> Inr (py_max_from x xs))"

definition leader_lap :: "pos \<Rightarrow> int" where
  "leader_lap p = (case lap p of None \<Rightarrow> 1 | Some l \<Rightarrow> l)"

text \<open>Float \<^verbatim>\<open>//\<close> and \<^verbatim>\<open>%\<close> by a positive literal.\<close>

definition py_floordiv :: "real \<Rightarrow> real \<Rightarrow> real" where
  "py_floordiv a b = of_int \<lfloor>a / b\<rfloor>"

definition py_mod :: "real \<Rightarrow> real \<Rightarrow> real" where
  "py_mod a b = a - b * of_int \<lfloor>a / b\<rfloor>"

definition time_str :: "real \<Rightarrow> string" where
  "time_str tm =
     (let hours = py_int (py_floordiv tm 3600);
          minutes = py_int (py_floordiv (py_mod tm 3600) 60);
          seconds = py_int (py_mod tm 60)
      in fmt_zero2 hours @ '':'' @ fmt_zero2 minutes @ '':'' @ fmt_zero2 seconds)"

text \<open>The two HUD texts of \<^verbatim>\<open>on_draw\<close>: the leader's lap and the race time.\<close>

definition hud :: "frame \<Rightarrow> error + string \<times> string" where
  "hud f =
     bind_res (leader f) (\<lambda>(leader_code, p).
       Inr (''Lap '' @ str_int (leader_lap p), ''Race: '' @ time_str (t f)))"

subsection \<open>Leaderboard\<close>

text \<open>The loop that builds \<^verbatim>\<open>driver_list\<close>: one triple per dict item, in dict order.\<close>

definition driver_list :: "(string \<rightharpoonup> color) \<Rightarrow> frame \<Rightarrow> (string \<times> color \<times> pos) list" where
  "driver_list colors f =
     map (\<lambda>(code, p). (code, (case colors code of None \<Rightarrow> WHITE | Some c \<Rightarrow> c), p)) (drivers f)"

text \<open>The sort key \<^verbatim>\<open>x[2].get("dist", 999)\<close>.\<close>

definition leaderboard_key :: "string \<times> color \<times> pos \<Rightarrow> real" where
  "leaderboard_key x = (case dist' (snd (snd x)) of None \<Rightarrow> 999 | Some d \<Rightarrow> d)"

text \<open>
  \<^verbatim>\<open>list.sort(key=k, reverse=True)\<close>: a stable sort into descending order. CPython
  reverses the list, sorts it stably into ascending order and reverses it again.
\<close>

definition sort_reverse :: "('a \<Rightarrow> real) \<Rightarrow> 'a list \<Rightarrow> 'a list" where
  "sort_reverse k xs = rev (sort_key k (rev xs))"

definition ranking :: "(string \<rightharpoonup> color) \<Rightarrow> frame \<Rightarrow> (string \<times> color \<times> pos) list" where
  "ranking colors f = sort_reverse leaderboard_key (driver_list colors f)"

definition is_out :: "pos \<Rightarrow> bool" where
  "is_out p = ((case rel_dist p of None \<Rightarrow> 0 | Some r \<Rightarrow> r) = 1)"

definition row_text :: "nat \<Rightarrow> string \<Rightarrow> pos \<Rightarrow> string" where
  "row_text i code p =
     (let current_pos = int i + 1
      in if is_out p then fmt_right2 current_pos @ ''. '' @ code @ ''   OUT''
         else fmt_right2 current_pos @ ''. '' @ code)"

record draw_text =
  dt_text :: string
  dt_x :: real
  dt_y :: real
  dt_color :: color
  dt_size :: nat

text \<open>The \<^verbatim>\<open>arcade.draw_text\<close> calls of the leaderboard rows, in the order they are made.\<close>

definition leaderboard :: "window \<Rightarrow> frame \<Rightarrow> draw_text list" where
  "leaderboard w f =
     (let panel_width = 260;
          panel_height = min 400 (height w - 80);
          panel_x = width w - panel_width / 2 - 20;
          panel_y = height w - panel_height / 2 - 20;
          row_y = panel_y + panel_height / 2 - 60;
          row_height = 22
      in map (\<lambda>(i, (code, color, p)).
                \<lparr>dt_text = row_text i code p,
                 dt_x = panel_x - panel_width / 2 + 12,
                 dt_y = row_y - real i * row_height,
                 dt_color = color,
                 dt_size = 14\<rparr>)
             (enumerate 0 (ranking (driver_colors w) f)))"

text \<open>Driver entries for the examples: only the fields the HUD and the leaderboard read.\<close>

definition entry :: "int option \<Rightarrow> real option \<Rightarrow> real option \<Rightarrow> pos" where
  "entry l d r = \<lparr>pos_x = Some 0, pos_y = Some 0, lap = l, dist' = d, rel_dist = r\<rparr>"

definition frame_abc :: frame where
  "frame_abc =
     \<lparr>t = 3725,
      drivers = [(''A'', entry (Some 1) (Some 10) (Some 0)),
                 (''B'', entry (Some 1) (Some 30) (Some 0)),
                 (''C'', entry (Some 1) (Some 20) (Some 1))]\<rparr>"

definition frame_laps :: frame where
  "frame_laps =
     \<lparr>t = 3725,
      drivers = [(''A'', entry (Some 2) (Some 50) None),
                 (''B'', entry (Some 3) (Some 10) None)]\<rparr>"

definition frame_missing :: frame where
  "frame_missing =
     \<lparr>t = 0,
      drivers = [(''Y'', entry (Some 1) (Some 500) None),
                 (''X'', entry None None None)]\<rparr>"

definition frame_missing_ahead :: frame where
  "frame_missing_ahead =
     \<lparr>t = 0,
      drivers = [(''Y'', entry (Some 1) (Some 500) None),
                 (''X'', entry (Some 5) None None)]\<rparr>"

section \<open>Playback controller: properties\<close>

lemma max_py_int_floor: "max 1 (py_int r) = max 1 \<lfloor>r\<rfloor>"
proof (cases "0 \<le> r")
  case True
  then show ?thesis by (simp add: py_int_def)
next
  case False
  then have "r < 0" by simp
  then have "\<lfloor>r\<rfloor> \<le> 0" and "\<lceil>r\<rceil> \<le> 0"
    by (simp_all add: floor_le_iff ceiling_le_iff)
  with False show ?thesis by (simp add: py_int_def)
qed

lemma on_update_paused: "paused w \<Longrightarrow> on_update w = Inr w"
  by (simp add: on_update_def)

lemma on_update_finite:
  assumes "\<not> paused w" and "playback_speed w = Finite s"
  shows "on_update w =
     Inr (w\<lparr>frame_index := min (frame_index w + max 1 \<lfloor>s\<rfloor>) (n_frames w - 1)\<rparr>)"
proof -
  have "on_update w =
      (if frame_index w + max 1 \<lfloor>s\<rfloor> \<ge> n_frames w then Inr (w\<lparr>frame_index := n_frames w - 1\<rparr>)
       else Inr (w\<lparr>frame_index := frame_index w + max 1 \<lfloor>s\<rfloor>\<rparr>))"
    using assms by (simp add: on_update_def bind_res_def Let_def max_py_int_floor)
  also have "\<dots> = Inr (w\<lparr>frame_index := min (frame_index w + max 1 \<lfloor>s\<rfloor>) (n_frames w - 1)\<rparr>)"
    by (simp add: min_def)
  finally show ?thesis .
qed

lemma on_update_not_finite:
  assumes "\<not> paused w"
  shows "playback_speed w = PosInf \<Longrightarrow> on_update w = Inl OverflowError"
    and "playback_speed w = NegInf \<Longrightarrow> on_update w = Inl OverflowError"
    and "playback_speed w = NaN \<Longrightarrow> on_update w = Inl ValueError"
  using assms by (simp_all add: on_update_def bind_res_def)

lemma on_update_result:
  assumes "on_update w = Inr w'"
  shows "\<exists>i. w' = w\<lparr>frame_index := i\<rparr>"
proof (cases "paused w")
  case True
  with assms have "w' = w" by (simp add: on_update_paused)
  then have "w' = w\<lparr>frame_index := frame_index w\<rparr>" by simp
  then show ?thesis by blast
next
  case False
  show ?thesis
  proof (cases "playback_speed w")
    case (Finite s)
    with False assms show ?thesis
      by (auto simp: on_update_finite)
  next
    case PosInf
    with False assms show ?thesis by (simp add: on_update_not_finite)
  next
    case NegInf
    with False assms show ?thesis by (simp add: on_update_not_finite)
  next
    case NaN
    with False assms show ?thesis by (simp add: on_update_not_finite)
  qed
qed

lemma ticks_speed_one:
  assumes "\<not> paused w" and "playback_speed w = Finite 1" and "frame_index w \<le> n_frames w - 1"
  shows "ticks k w = Inr (w\<lparr>frame_index := min (frame_index w + int k) (n_frames w - 1)\<rparr>)"
proof (induction k)
  case 0
  from assms(3) show ?case by simp
next
  case (Suc k)
  let ?u = "w\<lparr>frame_index := min (frame_index w + int k) (n_frames w - 1)\<rparr>"
  have "\<not> paused ?u" and "playback_speed ?u = Finite 1"
    using assms(1,2) by simp_all
  then have "on_update ?u =
      Inr (?u\<lparr>frame_index := min (frame_index ?u + max 1 \<lfloor>1::real\<rfloor>) (n_frames ?u - 1)\<rparr>)"
    by (rule on_update_finite)
  also have "\<dots> = Inr (w\<lparr>frame_index := min (frame_index w + int (Suc k)) (n_frames w - 1)\<rparr>)"
    by simp
  finally show ?case
    by (simp add: Suc.IH bind_res_def)
qed

lemma on_update_at_last_frame:
  assumes "frame_index w = n_frames w - 1" and "playback_speed w = Finite s"
  shows "on_update w = Inr w"
proof (cases "paused w")
  case True
  then show ?thesis by (rule on_update_paused)
next
  case False
  have "min (frame_index w + max 1 \<lfloor>s\<rfloor>) (n_frames w - 1) = frame_index w"
    using assms(1) by simp
  then show ?thesis
    using on_update_finite [OF False assms(2)] by simp
qed

lemma ticks_at_last_frame:
  assumes "frame_index w = n_frames w - 1" and "playback_speed w = Finite s"
  shows "ticks k w = Inr w"
  by (induction k) (simp_all add: bind_res_def on_update_at_last_frame [OF assms])

lemma ticks_add: "ticks (j + k) w = bind_res (ticks j w) (ticks k)"
proof (induction k)
  case 0
  show ?case by (cases "ticks j w") (simp_all add: bind_res_def)
next
  case (Suc k)
  then show ?case
    by (cases "ticks j w") (simp_all add: bind_res_def)
qed

text \<open>
  Claim C3, as amended. When the window is not paused, its speed is finite, it has at
  least one frame and its index is in range, one tick returns and sets the index to
  \<open>min (index + max 1 \<lfloor>speed\<rfloor>) (n_frames - 1)\<close>, changing nothing else. At speed 1
  with 100 frames, starting from index 0, the index is 50 after 50 ticks and 99 after 100
  ticks, and any number of further ticks leaves the whole window as it is after 100
  ticks: playback holds at the last frame.
\<close>

theorem tick_advances_and_holds:
  "(\<not> paused w \<and> playback_speed w = Finite s \<and> 1 \<le> n_frames w \<and> 0 \<le> frame_index w \<and>
    frame_index w \<le> n_frames w - 1 \<longrightarrow>
      on_update w =
        Inr (w\<lparr>frame_index := min (frame_index w + max 1 \<lfloor>s\<rfloor>) (n_frames w - 1)\<rparr>)) \<and>
   (playback_speed v = Finite 1 \<and> \<not> paused v \<and> n_frames v = 100 \<and> frame_index v = 0 \<longrightarrow>
      ticks 50 v = Inr (v\<lparr>frame_index := 50\<rparr>) \<and>
      ticks 100 v = Inr (v\<lparr>frame_index := 99\<rparr>) \<and>
      (\<forall>k. ticks (100 + k) v = Inr (v\<lparr>frame_index := 99\<rparr>)))"
proof (intro conjI impI)
  assume "\<not> paused w \<and> playback_speed w = Finite s \<and> 1 \<le> n_frames w \<and> 0 \<le> frame_index w \<and>
    frame_index w \<le> n_frames w - 1"
  then show "on_update w =
      Inr (w\<lparr>frame_index := min (frame_index w + max 1 \<lfloor>s\<rfloor>) (n_frames w - 1)\<rparr>)"
    using on_update_finite [of w s] by blast
next
  assume v: "playback_speed v = Finite 1 \<and> \<not> paused v \<and> n_frames v = 100 \<and> frame_index v = 0"
  then have run: "ticks k v = Inr (v\<lparr>frame_index := min (int k) 99\<rparr>)" for k
    using ticks_speed_one [of v k] by simp
  show "ticks 50 v = Inr (v\<lparr>frame_index := 50\<rparr>)"
    using run [of 50] by simp
  show at100: "ticks 100 v = Inr (v\<lparr>frame_index := 99\<rparr>)"
    using run [of 100] by simp
  show "\<forall>k. ticks (100 + k) v = Inr (v\<lparr>frame_index := 99\<rparr>)"
  proof
    fix k
    let ?u = "v\<lparr>frame_index := 99\<rparr>"
    have "frame_index ?u = n_frames ?u - 1" and "playback_speed ?u = Finite 1"
      using v by simp_all
    then have "ticks k ?u = Inr ?u"
      by (rule ticks_at_last_frame)
    then show "ticks (100 + k) v = Inr ?u"
      by (simp add: ticks_add at100 bind_res_def)
  qed
qed

theorem tick_advances_and_holds_witness:
  "frame_index (playback_window 100 0 1 False) = 0 \<and>
   on_update (playback_window 100 0 1 False) = Inr (playback_window 100 1 1 False) \<and>
   on_update (playback_window 100 97 (5 / 2) False) = Inr (playback_window 100 99 (5 / 2) False) \<and>
   ticks 50 (playback_window 100 0 1 False) = Inr (playback_window 100 50 1 False) \<and>
   ticks 100 (playback_window 100 0 1 False) = Inr (playback_window 100 99 1 False) \<and>
   ticks (100 + 7) (playback_window 100 0 1 False) = Inr (playback_window 100 99 1 False)"
proof -
  let ?w = "playback_window 100 0 1 False"
  let ?u = "playback_window 100 97 (5 / 2) False"
  have hyp: "\<not> paused ?w \<and> playback_speed ?w = Finite 1 \<and> 1 \<le> n_frames ?w \<and>
      0 \<le> frame_index ?w \<and> frame_index ?w \<le> n_frames ?w - 1"
    and hyp_u: "\<not> paused ?u \<and> playback_speed ?u = Finite (5 / 2) \<and> 1 \<le> n_frames ?u \<and>
      0 \<le> frame_index ?u \<and> frame_index ?u \<le> n_frames ?u - 1"
    and hyp': "playback_speed ?w = Finite 1 \<and> \<not> paused ?w \<and> n_frames ?w = 100 \<and>
      frame_index ?w = 0"
    by (simp_all add: playback_window_def float_window_def)
  have upd: "?w\<lparr>frame_index := i\<rparr> = playback_window 100 i 1 False" for i
    by (simp add: playback_window_def float_window_def)
  have "on_update ?w =
      Inr (?w\<lparr>frame_index := min (frame_index ?w + max 1 \<lfloor>1::real\<rfloor>) (n_frames ?w - 1)\<rparr>)"
    using tick_advances_and_holds [of ?w 1 ?w] hyp by blast
  then have one: "on_update ?w = Inr (playback_window 100 1 1 False)"
    by (simp add: playback_window_def float_window_def)
  have "on_update ?u =
      Inr (?u\<lparr>frame_index := min (frame_index ?u + max 1 \<lfloor>5 / 2 :: real\<rfloor>) (n_frames ?u - 1)\<rparr>)"
    using tick_advances_and_holds [of ?u "5 / 2" ?w] hyp_u by blast
  moreover have "\<lfloor>5 / 2 :: real\<rfloor> = 2"
    by (simp add: floor_eq_iff)
  ultimately have two: "on_update ?u = Inr (playback_window 100 99 (5 / 2) False)"
    by (simp add: playback_window_def float_window_def)
  have rest: "ticks 50 ?w = Inr (?w\<lparr>frame_index := 50\<rparr>) \<and>
      ticks 100 ?w = Inr (?w\<lparr>frame_index := 99\<rparr>) \<and>
      (\<forall>k. ticks (100 + k) ?w = Inr (?w\<lparr>frame_index := 99\<rparr>))"
    using tick_advances_and_holds [of ?w 1 ?w] hyp' by blast
  then have "ticks (100 + 7) ?w = Inr (?w\<lparr>frame_index := 99\<rparr>)"
    by blast
  with one two rest have "on_update ?w = Inr (playback_window 100 1 1 False) \<and>
      on_update ?u = Inr (playback_window 100 99 (5 / 2) False) \<and>
      ticks 50 ?w = Inr (playback_window 100 50 1 False) \<and>
      ticks 100 ?w = Inr (playback_window 100 99 1 False) \<and>
      ticks (100 + 7) ?w = Inr (playback_window 100 99 1 False)"
    by (simp only: upd simp_thms)
  moreover have "frame_index ?w = 0"
    by (simp add: playback_window_def float_window_def)
  ultimately show ?thesis by blast
qed

subsection \<open>The frame index stays in range\<close>

lemma state_after_key: "state_after w (Key k) = on_key_press w k"
  by (simp add: state_after_def)

lemma state_after_tick:
  "state_after w Tick = (case on_update w of Inl e \<Rightarrow> w | Inr w' \<Rightarrow> w')"
  by (simp add: state_after_def)

lemma state_after_n_frames: "n_frames (state_after w opn) = n_frames w"
proof (cases opn)
  case Tick
  show ?thesis
  proof (cases "on_update w")
    case (Inl e)
    with Tick show ?thesis by (simp add: state_after_tick)
  next
    case (Inr w')
    from on_update_result [OF Inr] obtain i where "w' = w\<lparr>frame_index := i\<rparr>"
      by blast
    with Tick Inr show ?thesis by (simp add: state_after_tick)
  qed
next
  case (Key k)
  then show ?thesis by (cases k) (simp_all add: state_after_key)
qed

lemma on_key_press_index_in_range:
  assumes "0 \<le> frame_index w" and "frame_index w \<le> n_frames w - 1"
  shows "0 \<le> frame_index (on_key_press w k) \<and> frame_index (on_key_press w k) \<le> n_frames w - 1"
  using assms by (cases k) simp_all

lemma on_update_index_in_range:
  assumes "0 \<le> frame_index w" and "frame_index w \<le> n_frames w - 1"
    and "on_update w = Inr w'"
  shows "0 \<le> frame_index w' \<and> frame_index w' \<le> n_frames w - 1"
proof (cases "paused w")
  case True
  with assms show ?thesis by (simp add: on_update_paused)
next
  case False
  show ?thesis
  proof (cases "playback_speed w")
    case (Finite s)
    have "0 \<le> frame_index w + max 1 \<lfloor>s\<rfloor>"
      using assms(1) by simp
    moreover have "0 \<le> n_frames w - 1"
      using assms(1,2) by simp
    ultimately have "0 \<le> min (frame_index w + max 1 \<lfloor>s\<rfloor>) (n_frames w - 1)"
      by simp
    moreover have "w' = w\<lparr>frame_index := min (frame_index w + max 1 \<lfloor>s\<rfloor>) (n_frames w - 1)\<rparr>"
      using on_update_finite [OF False Finite] assms(3) by simp
    ultimately show ?thesis by simp
  next
    case PosInf
    with False assms(3) show ?thesis by (simp add: on_update_not_finite)
  next
    case NegInf
    with False assms(3) show ?thesis by (simp add: on_update_not_finite)
  next
    case NaN
    with False assms(3) show ?thesis by (simp add: on_update_not_finite)
  qed
qed

lemma state_after_index_in_range:
  assumes "0 \<le> frame_index w" and "frame_index w \<le> n_frames w - 1"
  shows "0 \<le> frame_index (state_after w opn) \<and>
         frame_index (state_after w opn) \<le> n_frames w - 1"
proof (cases opn)
  case Tick
  show ?thesis
  proof (cases "on_update w")
    case (Inl e)
    with Tick assms show ?thesis by (simp add: state_after_tick)
  next
    case (Inr w')
    with Tick on_update_index_in_range [OF assms Inr] show ?thesis
      by (simp add: state_after_tick)
  qed
next
  case (Key k)
  then show ?thesis
    using on_key_press_index_in_range [OF assms, of k] by (simp add: state_after_key)
qed

lemma foldl_state_after_index_in_range:
  assumes "0 \<le> frame_index w" and "frame_index w \<le> n_frames w - 1"
  shows "0 \<le> frame_index (foldl state_after w ops) \<and>
         frame_index (foldl state_after w ops) \<le> n_frames w - 1 \<and>
         n_frames (foldl state_after w ops) = n_frames w"
  using assms
proof (induction ops arbitrary: w)
  case Nil
  then show ?case by simp
next
  case (Cons opn ops)
  let ?u = "state_after w opn"
  have n: "n_frames ?u = n_frames w"
    by (rule state_after_n_frames)
  have "0 \<le> frame_index ?u \<and> frame_index ?u \<le> n_frames ?u - 1"
    using state_after_index_in_range [OF Cons.prems] n by simp
  then have "0 \<le> frame_index (foldl state_after ?u ops) \<and>
      frame_index (foldl state_after ?u ops) \<le> n_frames ?u - 1 \<and>
      n_frames (foldl state_after ?u ops) = n_frames ?u"
    using Cons.IH [of ?u] by blast
  with n show ?case by simp
qed

lemma apply_operation_cases:
  "apply_operation w opn = Inr (state_after w opn) \<or>
   (opn = Tick \<and> \<not> paused w \<and> (\<forall>s. playback_speed w \<noteq> Finite s) \<and>
    (apply_operation w opn = Inl OverflowError \<or> apply_operation w opn = Inl ValueError) \<and>
    state_after w opn = w)"
proof (cases opn)
  case (Key k)
  then show ?thesis by (simp add: state_after_def)
next
  case Tick
  show ?thesis
  proof (cases "paused w")
    case True
    with Tick show ?thesis by (simp add: state_after_def on_update_paused)
  next
    case False
    show ?thesis
    proof (cases "playback_speed w")
      case (Finite s)
      with Tick False show ?thesis by (simp add: state_after_def on_update_finite)
    next
      case PosInf
      with Tick False show ?thesis by (simp add: state_after_def on_update_not_finite)
    next
      case NegInf
      with Tick False show ?thesis by (simp add: state_after_def on_update_not_finite)
    next
      case NaN
      with Tick False show ?thesis by (simp add: state_after_def on_update_not_finite)
    qed
  qed
qed

text \<open>
  Claim C4. With at least one frame and the index in \<open>[0, n_frames - 1]\<close>, the index is
  again in that range after any one operation (a tick or any key: seek by 10 either way,
  pause toggle, every speed change) and after any sequence of operations, and the number
  of frames never changes. This holds whether the operation returns or raises: every
  operation returns the window it leaves behind, except a tick at a non-finite speed,
  which raises and leaves the window as it was. A seek forward or backward yields
  \<open>clamp (index \<plusminus> 10) 0 (n_frames - 1)\<close> whatever the paused flag is. From index 5 a seek
  backward gives 0; from index 95 of 100 frames a seek forward gives 99.
\<close>

theorem index_stays_in_range:
  "(1 \<le> n_frames w \<and> 0 \<le> frame_index w \<and> frame_index w \<le> n_frames w - 1 \<longrightarrow>
      (\<forall>opn. 0 \<le> frame_index (state_after w opn) \<and>
             frame_index (state_after w opn) \<le> n_frames w - 1 \<and>
             n_frames (state_after w opn) = n_frames w) \<and>
      (\<forall>opn w'. apply_operation w opn = Inr w' \<longrightarrow>
             0 \<le> frame_index w' \<and> frame_index w' \<le> n_frames w - 1 \<and> n_frames w' = n_frames w) \<and>
      (\<forall>ops. 0 \<le> frame_index (foldl state_after w ops) \<and>
             frame_index (foldl state_after w ops) \<le> n_frames w - 1) \<and>
      frame_index (on_key_press w RIGHT) = clamp (frame_index w + 10) 0 (n_frames w - 1) \<and>
      frame_index (on_key_press w LEFT) = clamp (frame_index w - 10) 0 (n_frames w - 1)) \<and>
   (\<forall>opn. apply_operation w opn = Inr (state_after w opn) \<or>
      (opn = Tick \<and> \<not> paused w \<and> (\<forall>s. playback_speed w \<noteq> Finite s) \<and>
       (apply_operation w opn = Inl OverflowError \<or> apply_operation w opn = Inl ValueError) \<and>
       state_after w opn = w)) \<and>
   (frame_index v = 5 \<longrightarrow> frame_index (on_key_press v LEFT) = 0) \<and>
   (frame_index u = 95 \<and> n_frames u = 100 \<longrightarrow> frame_index (on_key_press u RIGHT) = 99)"
proof (intro conjI impI allI)
  assume a: "1 \<le> n_frames w \<and> 0 \<le> frame_index w \<and> frame_index w \<le> n_frames w - 1"
  then have lo: "0 \<le> frame_index w" and hi: "frame_index w \<le> n_frames w - 1"
    by simp_all
  show "frame_index (on_key_press w RIGHT) = clamp (frame_index w + 10) 0 (n_frames w - 1)"
    using a by (simp add: clamp_def)
  show "frame_index (on_key_press w LEFT) = clamp (frame_index w - 10) 0 (n_frames w - 1)"
    using a by (simp add: clamp_def)
  fix opn
  show "0 \<le> frame_index (state_after w opn)"
    using state_after_index_in_range [OF lo hi] by blast
  show "frame_index (state_after w opn) \<le> n_frames w - 1"
    using state_after_index_in_range [OF lo hi] by blast
  show "n_frames (state_after w opn) = n_frames w"
    by (rule state_after_n_frames)
next
  fix opn w'
  assume a: "1 \<le> n_frames w \<and> 0 \<le> frame_index w \<and> frame_index w \<le> n_frames w - 1"
    and r: "apply_operation w opn = Inr w'"
  then have lo: "0 \<le> frame_index w" and hi: "frame_index w \<le> n_frames w - 1"
    by simp_all
  from r have w': "w' = state_after w opn"
    by (simp add: state_after_def)
  show "0 \<le> frame_index w'"
    unfolding w' using state_after_index_in_range [OF lo hi] by blast
  show "frame_index w' \<le> n_frames w - 1"
    unfolding w' using state_after_index_in_range [OF lo hi] by blast
  show "n_frames w' = n_frames w"
    unfolding w' by (rule state_after_n_frames)
next
  fix ops
  assume a: "1 \<le> n_frames w \<and> 0 \<le> frame_index w \<and> frame_index w \<le> n_frames w - 1"
  then have lo: "0 \<le> frame_index w" and hi: "frame_index w \<le> n_frames w - 1"
    by simp_all
  show "0 \<le> frame_index (foldl state_after w ops)"
    using foldl_state_after_index_in_range [OF lo hi] by blast
  show "frame_index (foldl state_after w ops) \<le> n_frames w - 1"
    using foldl_state_after_index_in_range [OF lo hi] by blast
next
  fix opn
  show "apply_operation w opn = Inr (state_after w opn) \<or>
      (opn = Tick \<and> \<not> paused w \<and> (\<forall>s. playback_speed w \<noteq> Finite s) \<and>
       (apply_operation w opn = Inl OverflowError \<or> apply_operation w opn = Inl ValueError) \<and>
       state_after w opn = w)"
    by (rule apply_operation_cases)
next
  assume "frame_index v = 5"
  then show "frame_index (on_key_press v LEFT) = 0" by simp
next
  assume "frame_index u = 95 \<and> n_frames u = 100"
  then show "frame_index (on_key_press u RIGHT) = 99" by simp
qed

theorem index_stays_in_range_witness:
  "frame_index (state_after (playback_window 100 95 1 True) Tick) = 95 \<and>
   apply_operation (playback_window 100 95 1 True) Tick = Inr (playback_window 100 95 1 True) \<and>
   frame_index (state_after (playback_window 100 95 1 True) (Key RIGHT)) = 99 \<and>
   frame_index (on_key_press (playback_window 100 5 1 False) LEFT) = 0 \<and>
   frame_index (on_key_press (playback_window 100 95 1 True) RIGHT) = 99 \<and>
   clamp (95 + 10) 0 (100 - 1) = 99"
proof -
  let ?u = "playback_window 100 95 1 True"
  let ?v = "playback_window 100 5 1 False"
  have hyp: "1 \<le> n_frames ?u \<and> 0 \<le> frame_index ?u \<and> frame_index ?u \<le> n_frames ?u - 1"
    and hv: "frame_index ?v = 5" and hu: "frame_index ?u = 95 \<and> n_frames ?u = 100"
    by (simp_all add: playback_window_def float_window_def)
  note inst = index_stays_in_range [of ?u ?v ?u]
  have "frame_index (on_key_press ?u RIGHT) = clamp (frame_index ?u + 10) 0 (n_frames ?u - 1)"
    using inst hyp by blast
  then have c: "clamp (95 + 10) 0 (100 - 1) = frame_index (on_key_press ?u RIGHT)"
    by (simp add: playback_window_def float_window_def)
  have r: "frame_index (on_key_press ?u RIGHT) = 99"
    using inst hu by blast
  have l: "frame_index (on_key_press ?v LEFT) = 0"
    using inst hv by blast
  have t: "apply_operation ?u Tick = Inr ?u"
    by (simp add: playback_window_def float_window_def on_update_def)
  then have st: "state_after ?u Tick = ?u"
    by (simp add: state_after_def)
  have "frame_index (state_after ?u Tick) = 95"
    unfolding st by (simp add: playback_window_def float_window_def)
  moreover have "frame_index (state_after ?u (Key RIGHT)) = 99"
    using r by (simp add: state_after_key)
  ultimately show ?thesis
    using c r l t by simp
qed

subsection \<open>Speed changes\<close>



lemma speed_keys_at_special_values:
  "playback_speed w = PosInf \<Longrightarrow>
     playback_speed (on_key_press w UP) = PosInf \<and> playback_speed (on_key_press w DOWN) = PosInf"
  "playback_speed w = NegInf \<Longrightarrow>
     playback_speed (on_key_press w UP) = NegInf \<and>
     playback_speed (on_key_press w DOWN) = Finite (1 / 10)"
  "playback_speed w = NaN \<Longrightarrow>
     playback_speed (on_key_press w UP) = NaN \<and>
     playback_speed (on_key_press w DOWN) = Finite (1 / 10)"
  by simp_all







section \<open>Coordinate transform: properties\<close>

lemma max_one_nonzero: "max 1 (x::real) \<noteq> 0"
  by (simp add: max_def)

lemma py_div_max_one: "py_div a (max 1 b) = Inr (a / max 1 b)"
  by (simp add: py_div_def max_one_nonzero)

lemma update_scaling_total:
  "update_scaling w sw sh =
     Inr (w\<lparr>world_scale := fit_scale w sw sh,
            tx := sw / 2 - fit_scale w sw sh * ((x_min w + x_max w) / 2),
            ty := sh / 2 - fit_scale w sw sh * ((y_min w + y_max w) / 2),
            screen_inner_points :=
              map (\<lambda>(x, y). (fit_scale w sw sh * x
                                + (sw / 2 - fit_scale w sw sh * ((x_min w + x_max w) / 2)),
                              fit_scale w sw sh * y
                                + (sh / 2 - fit_scale w sw sh * ((y_min w + y_max w) / 2))))
                  (world_inner_points w),
            screen_outer_points :=
              map (\<lambda>(x, y). (fit_scale w sw sh * x
                                + (sw / 2 - fit_scale w sw sh * ((x_min w + x_max w) / 2)),
                              fit_scale w sw sh * y
                                + (sh / 2 - fit_scale w sw sh * ((y_min w + y_max w) / 2))))
                  (world_outer_points w)\<rparr>)"
  by (simp add: update_scaling_def Let_def py_div_max_one bind_res_def fit_scale_def
      world_to_screen_def case_prod_beta)

lemma update_scaling_fields:
  assumes "update_scaling w sw sh = Inr w'"
  shows "world_scale w' = fit_scale w sw sh"
    and "tx w' = sw / 2 - fit_scale w sw sh * ((x_min w + x_max w) / 2)"
    and "ty w' = sh / 2 - fit_scale w sw sh * ((y_min w + y_max w) / 2)"
    and "x_min w' = x_min w" and "x_max w' = x_max w"
    and "y_min w' = y_min w" and "y_max w' = y_max w"
    and "world_inner_points w' = world_inner_points w"
    and "world_outer_points w' = world_outer_points w"
    and "screen_inner_points w' = map (\<lambda>(x, y). world_to_screen w' x y) (world_inner_points w)"
    and "screen_outer_points w' = map (\<lambda>(x, y). world_to_screen w' x y) (world_outer_points w)"
  using assms unfolding update_scaling_total
  by (auto simp: world_to_screen_def case_prod_beta)


text \<open>
  Claim C9. Recomputing twice with the same dimensions gives the same window as
  recomputing once: the same scale, the same translation and the same projected track
  points (for all dimensions, positive or not).
\<close>

theorem update_scaling_idempotent:
  "bind_res (update_scaling w sw sh) (\<lambda>w'. update_scaling w' sw sh) = update_scaling w sw sh"
proof -
  obtain w' where ok: "update_scaling w sw sh = Inr w'"
    using update_scaling_total [of w sw sh] by blast
  have same: "fit_scale w' sw sh = fit_scale w sw sh"
    using update_scaling_fields(4-7) [OF ok] by (simp add: fit_scale_def)
  have "update_scaling w' sw sh = Inr w'"
    unfolding update_scaling_total [of w'] same update_scaling_fields(4-9) [OF ok]
    using ok unfolding update_scaling_total by auto
  with ok show ?thesis by (simp add: bind_res_def)
qed

section \<open>Renderer: properties\<close>

lemma mset_sort_reverse: "mset (sort_reverse k xs) = mset xs"
  by (simp add: sort_reverse_def)

lemma length_sort_reverse: "length (sort_reverse k xs) = length xs"
  by (simp add: sort_reverse_def)

lemma sorted_sort_reverse: "sorted_wrt (\<lambda>a b. k b \<le> k a) (sort_reverse k xs)"
proof -
  have "sorted (map k (sort_key k (rev xs)))"
    by (rule sorted_sort_key)
  then have "sorted_wrt (\<lambda>a b. k a \<le> k b) (sort_key k (rev xs))"
    by (simp add: sorted_map)
  then show ?thesis
    by (simp add: sort_reverse_def sorted_wrt_rev)
qed

lemma sort_reverse_stable:
  "filter (\<lambda>y. k y = c) (sort_reverse k xs) = filter (\<lambda>y. k y = c) xs"
proof -
  have "filter (\<lambda>y. k y = c) (sort_reverse k xs) = rev (filter (\<lambda>y. k y = c) (sort_key k (rev xs)))"
    by (simp add: sort_reverse_def rev_filter)
  also have "\<dots> = rev (filter (\<lambda>y. k y = c) (rev xs))"
    by (simp only: sort_key_stable)
  also have "\<dots> = filter (\<lambda>y. k y = c) xs"
    by (simp add: rev_filter)
  finally show ?thesis .
qed

lemma sort_reverse_inj_key_eq:
  assumes "mset xs = mset ys" and "inj_on k (set xs)" and "sorted_wrt (\<lambda>a b. k b \<le> k a) ys"
  shows "sort_reverse k xs = ys"
proof -
  have "sorted (map k (rev ys))"
    using assms(3) by (simp add: sorted_map sorted_wrt_rev)
  moreover have "mset (rev xs) = mset (rev ys)"
    using assms(1) by simp
  moreover have "inj_on k (set (rev xs))"
    using assms(2) by simp
  ultimately have "sort_key k (rev xs) = rev ys"
    by (rule sort_key_inj_key_eq [rotated 2])
  then show ?thesis by (simp add: sort_reverse_def)
qed

lemma sorted_desc_earlier:
  fixes k :: "'a \<Rightarrow> real"
  assumes "sorted_wrt (\<lambda>a b. k b \<le> k a) ys" and "i < length ys" and "j < length ys"
    and "k (ys ! i) < k (ys ! j)"
  shows "j < i"
proof (rule ccontr)
  assume "\<not> j < i"
  with assms(4) have "i < j" by (cases "i = j") auto
  from sorted_wrt_nth_less [OF assms(1) this assms(3)] have "k (ys ! j) \<le> k (ys ! i)" .
  with assms(4) show False by simp
qed

lemma leaderboard_length: "length (leaderboard w f) = length (drivers f)"
  by (simp add: leaderboard_def ranking_def length_sort_reverse driver_list_def)

lemma leaderboard_nth:
  assumes "i < length (drivers f)"
  shows "leaderboard w f ! i =
     (case ranking (driver_colors w) f ! i of (code, color, p) \<Rightarrow>
        \<lparr>dt_text = row_text i code p, dt_x = width w - 260 - 8, dt_y = height w - 80 - 22 * real i,
         dt_color = color, dt_size = 14\<rparr>)"
proof -
  have len: "i < length (ranking (driver_colors w) f)"
    using assms by (simp add: ranking_def length_sort_reverse driver_list_def)
  then show ?thesis
    by (simp add: leaderboard_def Let_def nth_enumerate_eq case_prod_beta)
qed

lemma abc_ranking:
  assumes "dist' pa = Some 10" and "dist' pb = Some 30" and "dist' pc = Some 20"
    and "mset (drivers f) = mset [(''A'', pa), (''B'', pb), (''C'', pc)]"
  shows "map fst (ranking colors f) = [''B'', ''C'', ''A''] \<and>
         map (snd \<circ> snd) (ranking colors f) = [pb, pc, pa]"
proof -
  let ?g = "\<lambda>(code, p). (code, (case colors code of None \<Rightarrow> WHITE | Some c \<Rightarrow> c), p)"
  let ?ys = "[?g (''B'', pb), ?g (''C'', pc), ?g (''A'', pa)]"
  have "mset (driver_list colors f) = image_mset ?g (mset (drivers f))"
    by (simp add: driver_list_def)
  then have m: "mset (driver_list colors f) = mset ?ys"
    unfolding assms(4) by simp
  then have "set (driver_list colors f) = set ?ys"
    by (rule mset_eq_setD)
  then have inj: "inj_on leaderboard_key (set (driver_list colors f))"
    using assms(1-3) by (simp add: leaderboard_key_def)
  have "sorted_wrt (\<lambda>a b. leaderboard_key b \<le> leaderboard_key a) ?ys"
    using assms(1-3) by (simp add: leaderboard_key_def)
  with m inj have "sort_reverse leaderboard_key (driver_list colors f) = ?ys"
    by (rule sort_reverse_inj_key_eq)
  then show ?thesis by (simp add: ranking_def)
qed

lemma tuple_gt_iff: "tuple_gt a b \<longleftrightarrow> fst b < fst a \<or> (fst a = fst b \<and> snd b < snd a)"
  by (auto simp: tuple_gt_def)

lemma tuple_gt_trans: "tuple_gt a b \<Longrightarrow> tuple_gt b c \<Longrightarrow> tuple_gt a c"
  by (auto simp: tuple_gt_iff)

lemma tuple_gt_not_trans: "tuple_gt a b \<Longrightarrow> \<not> tuple_gt c b \<Longrightarrow> tuple_gt a c"
  by (auto simp: tuple_gt_iff)

lemma py_max_from_split:
  "\<exists>ys zs. b # xs = ys @ py_max_from b xs # zs \<and>
     (\<forall>y\<in>set ys. tuple_gt (leader_key (snd (py_max_from b xs))) (leader_key (snd y))) \<and>
     (\<forall>z\<in>set zs. \<not> tuple_gt (leader_key (snd z)) (leader_key (snd (py_max_from b xs))))"
proof (induction xs arbitrary: b)
  case Nil
  show ?case by (intro exI [of _ "[]"]) simp
next
  case (Cons x xs)
  show ?case
  proof (cases "tuple_gt (leader_key (snd x)) (leader_key (snd b))")
    case True
    let ?m = "py_max_from x xs"
    have pm: "py_max_from b (x # xs) = ?m"
      using True by simp
    from Cons.IH [of x] obtain ys zs where
      eq: "x # xs = ys @ ?m # zs"
      and before: "\<forall>y\<in>set ys. tuple_gt (leader_key (snd ?m)) (leader_key (snd y))"
      and after: "\<forall>z\<in>set zs. \<not> tuple_gt (leader_key (snd z)) (leader_key (snd ?m))"
      by blast
    have "tuple_gt (leader_key (snd ?m)) (leader_key (snd b))"
    proof (cases ys)
      case Nil
      have "x # xs = ?m # zs"
        using eq unfolding Nil append_Nil .
      then have "?m = x" by (metis list.inject)
      with True show ?thesis by metis
    next
      case (Cons y ys')
      have "x # xs = y # ys' @ ?m # zs"
        using eq unfolding Cons append_Cons .
      then have "x = y" by (metis list.inject)
      then have "x \<in> set ys" using Cons by simp
      with before have "tuple_gt (leader_key (snd ?m)) (leader_key (snd x))" by blast
      then show ?thesis using True by (rule tuple_gt_trans)
    qed
    with before have B: "\<forall>y\<in>set (b # ys). tuple_gt (leader_key (snd ?m)) (leader_key (snd y))"
      by simp
    have A: "b # x # xs = (b # ys) @ ?m # zs"
      using eq by simp
    show ?thesis
      unfolding pm
      by (rule exI [of _ "b # ys"], rule exI [of _ zs]) (rule conjI, rule A, rule conjI, rule B, rule after)
  next
    case False
    let ?m = "py_max_from b xs"
    have pm: "py_max_from b (x # xs) = ?m"
      using False by simp
    from Cons.IH [of b] obtain ys zs where
      eq: "b # xs = ys @ ?m # zs"
      and before: "\<forall>y\<in>set ys. tuple_gt (leader_key (snd ?m)) (leader_key (snd y))"
      and after: "\<forall>z\<in>set zs. \<not> tuple_gt (leader_key (snd z)) (leader_key (snd ?m))"
      by blast
    show ?thesis
    proof (cases ys)
      case Nil
      have "b # xs = ?m # zs"
        using eq unfolding Nil append_Nil .
      then have m: "?m = b" and zs: "zs = xs" by (metis list.inject)+
      have A: "b # x # xs = [] @ ?m # (x # zs)"
        using m zs by simp
      have B: "\<forall>y\<in>set []. tuple_gt (leader_key (snd ?m)) (leader_key (snd y))"
        by simp
      have C: "\<forall>z\<in>set (x # zs). \<not> tuple_gt (leader_key (snd z)) (leader_key (snd ?m))"
        using after False m by simp
      show ?thesis
        unfolding pm
        by (rule exI [of _ "[]"], rule exI [of _ "x # zs"]) (rule conjI, rule A, rule conjI, rule B, rule C)
    next
      case (Cons y ys')
      have "b # xs = y # ys' @ ?m # zs"
        using eq unfolding Cons append_Cons .
      then have y: "y = b" and xs: "xs = ys' @ ?m # zs" by (metis list.inject)+
      have "tuple_gt (leader_key (snd ?m)) (leader_key (snd b))"
        using before Cons y by simp
      then have "tuple_gt (leader_key (snd ?m)) (leader_key (snd x))"
        using False by (rule tuple_gt_not_trans)
      with before Cons y have B: "\<forall>v\<in>set (b # x # ys'). tuple_gt (leader_key (snd ?m)) (leader_key (snd v))"
        by simp
      have A: "b # x # xs = (b # x # ys') @ ?m # zs"
        using arg_cong [OF xs, of "\<lambda>l. b # x # l"] by (simp only: append_Cons)
      show ?thesis
        unfolding pm
        by (rule exI [of _ "b # x # ys'"], rule exI [of _ zs]) (rule conjI, rule A, rule conjI, rule B, rule after)
    qed
  qed
qed

lemma py_int_of_int: "py_int (of_int n) = n"
  by (simp add: py_int_def)

lemma py_int_nonneg: "0 \<le> r \<Longrightarrow> py_int r = \<lfloor>r\<rfloor>"
  by (simp add: py_int_def)

lemma floor_div_numeral:
  fixes r :: real
  shows "\<lfloor>r / 3600\<rfloor> = \<lfloor>r\<rfloor> div 3600" and "\<lfloor>r / 60\<rfloor> = \<lfloor>r\<rfloor> div 60"
  using floor_divide_real_eq_div [of 3600 r] floor_divide_real_eq_div [of 60 r] by simp_all

lemma time_str_fields:
  "time_str tm = fmt_zero2 (\<lfloor>tm\<rfloor> div 3600) @ '':'' @ fmt_zero2 (\<lfloor>tm\<rfloor> mod 3600 div 60)
       @ '':'' @ fmt_zero2 (\<lfloor>tm\<rfloor> mod 60)"
proof -
  have h: "py_int (py_floordiv tm 3600) = \<lfloor>tm\<rfloor> div 3600"
    by (simp add: py_floordiv_def py_int_of_int floor_div_numeral)
  have "py_mod tm 3600 = tm - of_int (3600 * (\<lfloor>tm\<rfloor> div 3600))"
    by (simp add: py_mod_def floor_div_numeral)
  then have "\<lfloor>py_mod tm 3600\<rfloor> = \<lfloor>tm\<rfloor> - 3600 * (\<lfloor>tm\<rfloor> div 3600)"
    by (simp only: floor_diff_of_int)
  also have "\<dots> = \<lfloor>tm\<rfloor> mod 3600"
    by (simp add: minus_mult_div_eq_mod)
  finally have fl: "\<lfloor>py_mod tm 3600\<rfloor> = \<lfloor>tm\<rfloor> mod 3600" .
  have m: "py_int (py_floordiv (py_mod tm 3600) 60) = \<lfloor>tm\<rfloor> mod 3600 div 60"
    by (simp add: py_floordiv_def py_int_of_int floor_div_numeral fl)
  have "py_mod tm 60 = tm - of_int (60 * (\<lfloor>tm\<rfloor> div 60))"
    by (simp add: py_mod_def floor_div_numeral)
  then have "\<lfloor>py_mod tm 60\<rfloor> = \<lfloor>tm\<rfloor> - 60 * (\<lfloor>tm\<rfloor> div 60)"
    by (simp only: floor_diff_of_int)
  also have "\<dots> = \<lfloor>tm\<rfloor> mod 60"
    by (simp add: minus_mult_div_eq_mod)
  finally have fs: "\<lfloor>py_mod tm 60\<rfloor> = \<lfloor>tm\<rfloor> mod 60" .
  have "0 \<le> \<lfloor>py_mod tm 60\<rfloor>"
    unfolding fs by simp
  then have "0 \<le> py_mod tm 60" by simp
  then have s: "py_int (py_mod tm 60) = \<lfloor>tm\<rfloor> mod 60"
    using fs by (simp add: py_int_nonneg)
  show ?thesis
    unfolding time_str_def Let_def h m s ..
qed

lemma digits_below_100:
  "n < 100 \<Longrightarrow> replicate (2 - length (digits n)) CHR ''0'' @ digits n = [digit (n div 10), digit (n mod 10)]"
proof (cases "n < 10")
  case True
  then show ?thesis by (simp add: digits.simps [of n] digit_def)
next
  case False
  assume "n < 100"
  with False have "n div 10 < 10" by simp
  then have "digits (n div 10) = [digit (n div 10)]"
    by (simp add: digits.simps [of "n div 10"])
  with False show ?thesis by (simp add: digits.simps [of n])
qed

lemma fmt_zero2_two_digits:
  "0 \<le> n \<Longrightarrow> n < 100 \<Longrightarrow> fmt_zero2 n = [digit (nat n div 10), digit (nat n mod 10)]"
  using digits_below_100 [of "nat n"] by (simp add: fmt_zero2_def Let_def)

lemma leader_nonempty:
  assumes "drivers f \<noteq> []"
  shows "\<exists>c p ys zs. leader f = Inr (c, p) \<and> drivers f = ys @ (c, p) # zs \<and>
     (\<forall>y\<in>set ys. tuple_gt (leader_key p) (leader_key (snd y))) \<and>
     (\<forall>z\<in>set zs. \<not> tuple_gt (leader_key (snd z)) (leader_key p))"
proof -
  from assms obtain b xs where d: "drivers f = b # xs"
    by (cases "drivers f") auto
  obtain c p where m: "py_max_from b xs = (c, p)"
    by (cases "py_max_from b xs") auto
  have l: "leader f = Inr (c, p)"
    by (simp add: leader_def d m)
  from py_max_from_split [of b xs] obtain ys zs where
    "b # xs = ys @ (c, p) # zs"
    and "\<forall>y\<in>set ys. tuple_gt (leader_key p) (leader_key (snd y))"
    and "\<forall>z\<in>set zs. \<not> tuple_gt (leader_key (snd z)) (leader_key p)"
    unfolding m by auto
  with l d show ?thesis by metis
qed

lemma leader_greatest:
  assumes "leader f = Inr (c, p)"
  shows "(c, p) \<in> set (drivers f)"
    and "\<forall>e\<in>set (drivers f). \<not> tuple_gt (leader_key (snd e)) (leader_key p)"
proof -
  have ne: "drivers f \<noteq> []"
    using assms by (auto simp: leader_def)
  from leader_nonempty [OF ne] obtain ys zs where
    d: "drivers f = ys @ (c, p) # zs"
    and before: "\<forall>y\<in>set ys. tuple_gt (leader_key p) (leader_key (snd y))"
    and after: "\<forall>z\<in>set zs. \<not> tuple_gt (leader_key (snd z)) (leader_key p)"
    using assms by auto
  show "(c, p) \<in> set (drivers f)"
    by (simp add: d)
  have self: "\<not> tuple_gt (leader_key p) (leader_key p)"
    by (simp add: tuple_gt_def)
  have "\<not> tuple_gt (leader_key (snd y)) (leader_key p)" if "y \<in> set ys" for y
    using before that by (auto simp: tuple_gt_iff)
  with after self show "\<forall>e\<in>set (drivers f). \<not> tuple_gt (leader_key (snd e)) (leader_key p)"
    by (auto simp: d)
qed

lemma hud_of_leader:
  "leader f = Inr (c, p) \<Longrightarrow>
   hud f = Inr (''Lap '' @ str_int (case lap p of None \<Rightarrow> 1 | Some l \<Rightarrow> l),
                ''Race: '' @ time_str (t f))"
  by (simp add: hud_def bind_res_def leader_lap_def)

lemma laps_example:
  assumes "lap pa = Some 2" and "dist' pa = Some 50" and "lap pb = Some 3" and "dist' pb = Some 10"
    and "drivers f = [(''A'', pa), (''B'', pb)] \<or> drivers f = [(''B'', pb), (''A'', pa)]"
  shows "leader f = Inr (''B'', pb)"
  using assms by (auto simp: leader_def leader_key_def tuple_gt_def)

lemma row_text_suffix:
  "row_text i code p =
     fmt_right2 (int i + 1) @ ''. '' @ code @ (if rel_dist p = Some 1 then ''   OUT'' else [])"
  by (cases "rel_dist p") (simp_all add: row_text_def is_out_def Let_def)

lemma ranking_length: "length (ranking colors f) = length (drivers f)"
  by (simp add: ranking_def length_sort_reverse driver_list_def)

text \<open>
  Claim C1, as amended. For every frame whose drivers are A with distance 10, B with
  distance 30 and C with distance 20 and relative-distance flag 1, in any dict order, the
  leaderboard lists B, C, A: C stays at its place by distance, second, and its row is
  \<open>2. C   OUT\<close>. In general the ranking is a permutation of the frame's drivers in
  descending order of the sort key (the distance, 999 when absent), drivers with equal
  keys keep their dict order, there is one row per driver, and row \<open>i\<close> (from 0) shows
  rank \<open>i + 1\<close> and the driver code, followed by \<open>OUT\<close> exactly when the flag is 1, drawn 22
  units below the row before it.
\<close>

theorem leaderboard_ranks_by_distance:
  "(dist' pa = Some 10 \<and> dist' pb = Some 30 \<and> dist' pc = Some 20 \<and> rel_dist pc = Some 1 \<and>
    mset (drivers f) = mset [(''A'', pa), (''B'', pb), (''C'', pc)] \<longrightarrow>
      map fst (ranking (driver_colors w) f) = [''B'', ''C'', ''A''] \<and>
      dt_text (leaderboard w f ! 1) = '' 2. C   OUT'') \<and>
   mset (ranking (driver_colors w) g) = mset (driver_list (driver_colors w) g) \<and>
   sorted_wrt (\<lambda>a b. leaderboard_key b \<le> leaderboard_key a) (ranking (driver_colors w) g) \<and>
   (\<forall>c. filter (\<lambda>x. leaderboard_key x = c) (ranking (driver_colors w) g)
        = filter (\<lambda>x. leaderboard_key x = c) (driver_list (driver_colors w) g)) \<and>
   length (leaderboard w g) = length (drivers g) \<and>
   (\<forall>i<length (drivers g). \<exists>code color p.
      ranking (driver_colors w) g ! i = (code, color, p) \<and>
      dt_text (leaderboard w g ! i) =
        fmt_right2 (int i + 1) @ ''. '' @ code @ (if rel_dist p = Some 1 then ''   OUT'' else []) \<and>
      dt_color (leaderboard w g ! i) = color \<and>
      dt_y (leaderboard w g ! i) = height w - 80 - 22 * real i)"
proof (intro conjI impI allI)
  assume a: "dist' pa = Some 10 \<and> dist' pb = Some 30 \<and> dist' pc = Some 20 \<and> rel_dist pc = Some 1 \<and>
    mset (drivers f) = mset [(''A'', pa), (''B'', pb), (''C'', pc)]"
  then have r: "map fst (ranking (driver_colors w) f) = [''B'', ''C'', ''A'']"
    and ps: "map (snd \<circ> snd) (ranking (driver_colors w) f) = [pb, pc, pa]"
    using abc_ranking [of pa pb pc f "driver_colors w"] by simp_all
  show "map fst (ranking (driver_colors w) f) = [''B'', ''C'', ''A'']"
    by (rule r)
  have len: "length (drivers f) = 3"
    using a mset_eq_length [of "drivers f" "[(''A'', pa), (''B'', pb), (''C'', pc)]"] by simp
  then have len': "length (ranking (driver_colors w) f) = 3"
    by (simp add: ranking_length)
  obtain code color p where e: "ranking (driver_colors w) f ! 1 = (code, color, p)"
    by (cases "ranking (driver_colors w) f ! 1") auto
  have "map fst (ranking (driver_colors w) f) ! 1 = ''C''"
    unfolding r by simp
  then have code: "code = ''C''"
    using e len' by simp
  have "map (snd \<circ> snd) (ranking (driver_colors w) f) ! 1 = pc"
    unfolding ps by simp
  then have p: "p = pc"
    using e len' by simp
  have "dt_text (leaderboard w f ! 1) = row_text 1 code p"
    using leaderboard_nth [of 1 f w] len e by simp
  then show "dt_text (leaderboard w f ! 1) = '' 2. C   OUT''"
    using a by (simp add: code p row_text_suffix fmt_right2_def str_int_def digits.simps digit_def)
next
  show "mset (ranking (driver_colors w) g) = mset (driver_list (driver_colors w) g)"
    by (simp add: ranking_def mset_sort_reverse)
  show "sorted_wrt (\<lambda>a b. leaderboard_key b \<le> leaderboard_key a) (ranking (driver_colors w) g)"
    unfolding ranking_def by (rule sorted_sort_reverse)
  show "length (leaderboard w g) = length (drivers g)"
    by (rule leaderboard_length)
next
  fix c
  show "filter (\<lambda>x. leaderboard_key x = c) (ranking (driver_colors w) g)
      = filter (\<lambda>x. leaderboard_key x = c) (driver_list (driver_colors w) g)"
    unfolding ranking_def by (rule sort_reverse_stable)
next
  fix i
  assume i: "i < length (drivers g)"
  obtain code color p where e: "ranking (driver_colors w) g ! i = (code, color, p)"
    by (cases "ranking (driver_colors w) g ! i") auto
  have "leaderboard w g ! i =
      \<lparr>dt_text = row_text i code p, dt_x = width w - 260 - 8, dt_y = height w - 80 - 22 * real i,
       dt_color = color, dt_size = 14\<rparr>"
    using leaderboard_nth [OF i, of w] e by simp
  then have "dt_text (leaderboard w g ! i) =
        fmt_right2 (int i + 1) @ ''. '' @ code @ (if rel_dist p = Some 1 then ''   OUT'' else []) \<and>
      dt_color (leaderboard w g ! i) = color \<and>
      dt_y (leaderboard w g ! i) = height w - 80 - 22 * real i"
    by (simp add: row_text_suffix)
  with e show "\<exists>code color p.
      ranking (driver_colors w) g ! i = (code, color, p) \<and>
      dt_text (leaderboard w g ! i) =
        fmt_right2 (int i + 1) @ ''. '' @ code @ (if rel_dist p = Some 1 then ''   OUT'' else []) \<and>
      dt_color (leaderboard w g ! i) = color \<and>
      dt_y (leaderboard w g ! i) = height w - 80 - 22 * real i"
    by blast
qed

theorem leaderboard_ranks_by_distance_witness:
  "map fst (ranking (driver_colors (playback_window 1 0 1 False)) frame_abc) = [''B'', ''C'', ''A''] \<and>
   dt_text (leaderboard (playback_window 1 0 1 False) frame_abc ! 1) = '' 2. C   OUT'' \<and>
   dt_text (leaderboard (playback_window 1 0 1 False) frame_abc ! 0) = '' 1. B'' \<and>
   dt_y (leaderboard (playback_window 1 0 1 False) frame_abc ! 0) = 1120 \<and>
   dt_text (leaderboard (playback_window 1 0 1 False) frame_abc ! 2) = '' 3. A'' \<and>
   dt_y (leaderboard (playback_window 1 0 1 False) frame_abc ! 2) = 1076"
proof -
  let ?w = "playback_window 1 0 1 False"
  let ?pa = "entry (Some 1) (Some 10) (Some 0)"
  let ?pb = "entry (Some 1) (Some 30) (Some 0)"
  let ?pc = "entry (Some 1) (Some 20) (Some 1)"
  note inst = leaderboard_ranks_by_distance [of ?pa ?pb ?pc frame_abc ?w frame_abc]
  have hyp: "dist' ?pa = Some 10 \<and> dist' ?pb = Some 30 \<and> dist' ?pc = Some 20 \<and> rel_dist ?pc = Some 1 \<and>
      mset (drivers frame_abc) = mset [(''A'', ?pa), (''B'', ?pb), (''C'', ?pc)]"
    by (simp add: entry_def frame_abc_def)
  from inst hyp have r: "map fst (ranking (driver_colors ?w) frame_abc) = [''B'', ''C'', ''A'']"
    and c: "dt_text (leaderboard ?w frame_abc ! 1) = '' 2. C   OUT''"
    by blast+
  from inst have rows: "\<forall>i<length (drivers frame_abc). \<exists>code color p.
      ranking (driver_colors ?w) frame_abc ! i = (code, color, p) \<and>
      dt_text (leaderboard ?w frame_abc ! i) =
        fmt_right2 (int i + 1) @ ''. '' @ code @ (if rel_dist p = Some 1 then ''   OUT'' else []) \<and>
      dt_color (leaderboard ?w frame_abc ! i) = color \<and>
      dt_y (leaderboard ?w frame_abc ! i) = height ?w - 80 - 22 * real i"
    by blast
  have len: "length (drivers frame_abc) = 3"
    by (simp add: frame_abc_def)
  have rk: "ranking (driver_colors ?w) frame_abc =
      [(''B'', WHITE, ?pb), (''C'', WHITE, ?pc), (''A'', WHITE, ?pa)]"
    by (simp add: ranking_def sort_reverse_def driver_list_def frame_abc_def playback_window_def float_window_def
        leaderboard_key_def entry_def)
  have two: "fmt_right2 1 = '' 1''" "fmt_right2 3 = '' 3''"
    by (simp_all add: fmt_right2_def str_int_def digits.simps digit_def)
  have "0 < length (drivers frame_abc)"
    using len by simp
  from rows [rule_format, OF this] obtain code0 color0 p0 where
    e0: "ranking (driver_colors ?w) frame_abc ! 0 = (code0, color0, p0)"
    and t0: "dt_text (leaderboard ?w frame_abc ! 0) =
        fmt_right2 (int 0 + 1) @ ''. '' @ code0 @ (if rel_dist p0 = Some 1 then ''   OUT'' else [])"
    and y0: "dt_y (leaderboard ?w frame_abc ! 0) = height ?w - 80 - 22 * real 0"
    by blast
  from e0 have "code0 = ''B''" and "p0 = ?pb"
    unfolding rk by simp_all
  with t0 y0 have r0: "dt_text (leaderboard ?w frame_abc ! 0) = '' 1. B'' \<and>
      dt_y (leaderboard ?w frame_abc ! 0) = 1120"
    by (simp add: two entry_def playback_window_def float_window_def)
  have "2 < length (drivers frame_abc)"
    using len by simp
  from rows [rule_format, OF this] obtain code2 color2 p2 where
    e2: "ranking (driver_colors ?w) frame_abc ! 2 = (code2, color2, p2)"
    and t2: "dt_text (leaderboard ?w frame_abc ! 2) =
        fmt_right2 (int 2 + 1) @ ''. '' @ code2 @ (if rel_dist p2 = Some 1 then ''   OUT'' else [])"
    and y2: "dt_y (leaderboard ?w frame_abc ! 2) = height ?w - 80 - 22 * real 2"
    by blast
  from e2 have "code2 = ''A''" and "p2 = ?pa"
    unfolding rk by simp_all
  with t2 y2 have r2: "dt_text (leaderboard ?w frame_abc ! 2) = '' 3. A'' \<and>
      dt_y (leaderboard ?w frame_abc ! 2) = 1076"
    by (simp add: two entry_def playback_window_def float_window_def)
  from r c r0 r2 show ?thesis by blast
qed

text \<open>
  The spec's example order B, A, C does not hold: on the frame with A at 10, B at 30 and
  the retired C at 20 the leaderboard rows are B, C (marked OUT), A.
\<close>

theorem leaderboard_retired_not_last_counterexample:
  "map dt_text (leaderboard (playback_window 1 0 1 False) frame_abc)
     = ['' 1. B'', '' 2. C   OUT'', '' 3. A''] \<and>
   map fst (ranking (driver_colors (playback_window 1 0 1 False)) frame_abc) \<noteq> [''B'', ''A'', ''C'']"
  by code_simp

lemma hours_bounds:
  "0 \<le> (n::int) \<Longrightarrow> n < 360000 \<Longrightarrow> 0 \<le> n div 3600 \<and> n div 3600 < 100"
  by (simp add: div_int_pos_iff)

lemma minutes_bounds: "0 \<le> (n::int) mod 3600 div 60 \<and> n mod 3600 div 60 < 100"
proof -
  have "0 \<le> n mod 3600" and "n mod 3600 < 3600" by simp_all
  then have "0 \<le> n mod 3600 div 60" and "n mod 3600 div 60 < 60"
    by (simp_all add: div_int_pos_iff)
  then show ?thesis by simp
qed

lemma seconds_bounds: "0 \<le> (n::int) mod 60 \<and> n mod 60 < 100"
proof -
  have "0 \<le> n mod 60" and "n mod 60 < 60" by simp_all
  then show ?thesis by simp
qed

lemma digits_two:
  assumes "10 \<le> m" and "m < 100"
  shows "digits m = [digit (m div 10), digit (m mod 10)]"
proof -
  from assms(2) have "m div 10 < 10"
    by simp
  then have "digits (m div 10) = [digit (m div 10)]"
    by (simp add: digits.simps [of "m div 10"])
  with assms(1) show ?thesis
    by (simp add: digits.simps [of m])
qed

lemma str_int_3: "str_int 3 = ''3''"
  by (simp add: str_int_def digits.simps digit_def)

text \<open>
  Claim C7. For every frame whose drivers are A with lap 2 and distance 50 and B with
  lap 3 and distance 10, in either dict order, the leader is B and the HUD shows
  \<open>Lap 3\<close>. In general, for a frame with at least one driver, the leader is an entry
  of the frame whose \<open>(lap, distance)\<close> pair no other entry's pair exceeds in Python's
  lexicographic order on pairs (first the laps, then the distances); entries before it in
  dict order have a strictly smaller pair. The HUD texts are \<open>Lap\<close> with the decimal
  lap number stored with the leader (1 when the entry has none) and \<open>Race:\<close> with the
  time string. The time string is hours, minutes and seconds
  of the whole seconds of the timestamp, each zero-padded to two digits and separated by
  colons: \<open>HH:MM:SS\<close>, eight characters for a timestamp from 0 to below 100 hours.
\<close>

theorem leader_is_lexicographic_maximum:
  "(lap pa = Some 2 \<and> dist' pa = Some 50 \<and> lap pb = Some 3 \<and> dist' pb = Some 10 \<and>
    (drivers f = [(''A'', pa), (''B'', pb)] \<or> drivers f = [(''B'', pb), (''A'', pa)]) \<longrightarrow>
      leader f = Inr (''B'', pb) \<and>
      hud f = Inr (''Lap 3'', ''Race: '' @ time_str (t f))) \<and>
   (drivers g \<noteq> [] \<longrightarrow>
      (\<exists>c p ys zs. leader g = Inr (c, p) \<and> drivers g = ys @ (c, p) # zs \<and>
         (\<forall>e\<in>set (drivers g). \<not> tuple_gt (leader_key (snd e)) (leader_key p)) \<and>
         (\<forall>y\<in>set ys. tuple_gt (leader_key p) (leader_key (snd y))) \<and>
         hud g = Inr (''Lap '' @ str_int (case lap p of None \<Rightarrow> 1 | Some l \<Rightarrow> l),
                      ''Race: '' @ time_str (t g)))) \<and>
   (lap q = Some l \<and> dist' q = Some d \<longrightarrow> leader_key q = (l, d)) \<and>
   (tuple_gt a b \<longleftrightarrow> fst b < fst a \<or> (fst a = fst b \<and> snd b < snd a)) \<and>
   (0 \<le> n \<and> n < 10 \<longrightarrow> str_int n = [digit (nat n)]) \<and>
   (10 \<le> n \<and> n < 100 \<longrightarrow> str_int n = [digit (nat n div 10), digit (nat n mod 10)]) \<and>
   map digit [0..<10] = ''0123456789'' \<and>
   time_str tm =
     fmt_zero2 (\<lfloor>tm\<rfloor> div 3600) @ '':'' @ fmt_zero2 (\<lfloor>tm\<rfloor> mod 3600 div 60) @ '':''
       @ fmt_zero2 (\<lfloor>tm\<rfloor> mod 60) \<and>
   (0 \<le> n \<and> n < 100 \<longrightarrow> fmt_zero2 n = [digit (nat n div 10), digit (nat n mod 10)]) \<and>
   (0 \<le> tm \<and> tm < 360000 \<longrightarrow> length (time_str tm) = 8)"
proof (intro conjI impI)
  assume a: "lap pa = Some 2 \<and> dist' pa = Some 50 \<and> lap pb = Some 3 \<and> dist' pb = Some 10 \<and>
    (drivers f = [(''A'', pa), (''B'', pb)] \<or> drivers f = [(''B'', pb), (''A'', pa)])"
  then show l: "leader f = Inr (''B'', pb)"
    using laps_example [of pa pb f] by blast
  have "lap pb = Some 3"
    using a by simp
  then show "hud f = Inr (''Lap 3'', ''Race: '' @ time_str (t f))"
    using hud_of_leader [OF l] by (simp add: str_int_3)
next
  assume ne: "drivers g \<noteq> []"
  from leader_nonempty [OF ne] obtain c p ys zs where
    l: "leader g = Inr (c, p)" and d: "drivers g = ys @ (c, p) # zs"
    and before: "\<forall>y\<in>set ys. tuple_gt (leader_key p) (leader_key (snd y))"
    by blast
  note l d
  moreover have "\<forall>e\<in>set (drivers g). \<not> tuple_gt (leader_key (snd e)) (leader_key p)"
    using l by (rule leader_greatest(2))
  moreover note before
  moreover have "hud g = Inr (''Lap '' @ str_int (case lap p of None \<Rightarrow> 1 | Some l \<Rightarrow> l),
      ''Race: '' @ time_str (t g))"
    using l by (rule hud_of_leader)
  ultimately show "\<exists>c p ys zs. leader g = Inr (c, p) \<and> drivers g = ys @ (c, p) # zs \<and>
         (\<forall>e\<in>set (drivers g). \<not> tuple_gt (leader_key (snd e)) (leader_key p)) \<and>
         (\<forall>y\<in>set ys. tuple_gt (leader_key p) (leader_key (snd y))) \<and>
         hud g = Inr (''Lap '' @ str_int (case lap p of None \<Rightarrow> 1 | Some l \<Rightarrow> l),
                      ''Race: '' @ time_str (t g))"
    by blast
next
  assume "lap q = Some l \<and> dist' q = Some d"
  then show "leader_key q = (l, d)"
    by (simp add: leader_key_def)
next
  assume n: "0 \<le> n \<and> n < 10"
  then have "nat n < 10"
    by linarith
  then show "str_int n = [digit (nat n)]"
    using n by (simp add: str_int_def digits.simps [of "nat n"])
next
  assume n: "10 \<le> n \<and> n < 100"
  then have "10 \<le> nat n" and "nat n < 100"
    by linarith+
  then have "digits (nat n) = [digit (nat n div 10), digit (nat n mod 10)]"
    by (rule digits_two)
  then show "str_int n = [digit (nat n div 10), digit (nat n mod 10)]"
    using n by (simp add: str_int_def)
next
  show "map digit [0..<10] = ''0123456789''"
    by code_simp
  show "tuple_gt a b \<longleftrightarrow> fst b < fst a \<or> (fst a = fst b \<and> snd b < snd a)"
    by (rule tuple_gt_iff)
  show "time_str tm =
     fmt_zero2 (\<lfloor>tm\<rfloor> div 3600) @ '':'' @ fmt_zero2 (\<lfloor>tm\<rfloor> mod 3600 div 60) @ '':''
       @ fmt_zero2 (\<lfloor>tm\<rfloor> mod 60)"
    by (rule time_str_fields)
next
  assume "0 \<le> n \<and> n < 100"
  then show "fmt_zero2 n = [digit (nat n div 10), digit (nat n mod 10)]"
    using fmt_zero2_two_digits [of n] by blast
next
  assume tm: "0 \<le> tm \<and> tm < 360000"
  then have f1: "0 \<le> \<lfloor>tm\<rfloor>" and f2: "\<lfloor>tm\<rfloor> < 360000"
    by (simp_all add: floor_less_iff)
  have h: "0 \<le> \<lfloor>tm\<rfloor> div 3600" "\<lfloor>tm\<rfloor> div 3600 < 100"
    using hours_bounds [OF f1 f2] by blast+
  have m: "0 \<le> \<lfloor>tm\<rfloor> mod 3600 div 60" "\<lfloor>tm\<rfloor> mod 3600 div 60 < 100"
    using minutes_bounds [of "\<lfloor>tm\<rfloor>"] by blast+
  have s: "0 \<le> \<lfloor>tm\<rfloor> mod 60" "\<lfloor>tm\<rfloor> mod 60 < 100"
    using seconds_bounds [of "\<lfloor>tm\<rfloor>"] by blast+
  show "length (time_str tm) = 8"
    unfolding time_str_fields
    by (simp add: fmt_zero2_two_digits [OF h] fmt_zero2_two_digits [OF m] fmt_zero2_two_digits [OF s])
qed

theorem leader_is_lexicographic_maximum_witness:
  "leader frame_laps = Inr (''B'', entry (Some 3) (Some 10) None) \<and>
   hud frame_laps = Inr (''Lap 3'', ''Race: 01:02:05'') \<and>
   tuple_gt (3, 10) (2, 50) \<and>
   fmt_zero2 5 = ''05'' \<and>
   length (time_str 3725) = 8 \<and>
   drivers frame_laps \<noteq> [] \<and>
   \<not> tuple_gt (leader_key (entry (Some 2) (Some 50) None))
        (leader_key (entry (Some 3) (Some 10) None)) \<and>
   leader_key (entry (Some 3) (Some 10) None) = (3, 10) \<and>
   str_int 5 = ''5''"
proof -
  let ?pa = "entry (Some 2) (Some 50) None"
  let ?pb = "entry (Some 3) (Some 10) None"
  note inst = leader_is_lexicographic_maximum
    [where pa = ?pa and pb = ?pb and f = frame_laps and g = frame_laps and q = ?pb and l = 3
       and d = 10 and a = "(3, 10)" and b = "(2, 50)" and tm = 3725 and n = 5]
  note c1 = inst [THEN conjunct1]
  note c2 = inst [THEN conjunct2, THEN conjunct1]
  note c3 = inst [THEN conjunct2, THEN conjunct2, THEN conjunct1]
  note c4 = inst [THEN conjunct2, THEN conjunct2, THEN conjunct2, THEN conjunct1]
  note c5 = inst [THEN conjunct2, THEN conjunct2, THEN conjunct2, THEN conjunct2, THEN conjunct1]
  note c8 = inst [THEN conjunct2, THEN conjunct2, THEN conjunct2, THEN conjunct2, THEN conjunct2,
    THEN conjunct2, THEN conjunct2, THEN conjunct1]
  note c9 = inst [THEN conjunct2, THEN conjunct2, THEN conjunct2, THEN conjunct2, THEN conjunct2,
    THEN conjunct2, THEN conjunct2, THEN conjunct2, THEN conjunct1]
  note c10 = inst [THEN conjunct2, THEN conjunct2, THEN conjunct2, THEN conjunct2, THEN conjunct2,
    THEN conjunct2, THEN conjunct2, THEN conjunct2, THEN conjunct2]
  have hyp: "lap ?pa = Some 2 \<and> dist' ?pa = Some 50 \<and> lap ?pb = Some 3 \<and> dist' ?pb = Some 10 \<and>
      (drivers frame_laps = [(''A'', ?pa), (''B'', ?pb)] \<or>
       drivers frame_laps = [(''B'', ?pb), (''A'', ?pa)])"
    by (simp add: entry_def frame_laps_def)
  from c1 [rule_format, OF hyp] have l: "leader frame_laps = Inr (''B'', ?pb)"
    and h: "hud frame_laps = Inr (''Lap 3'', ''Race: '' @ time_str (t frame_laps))"
    by blast+
  have two: "fmt_zero2 1 = ''01''" "fmt_zero2 2 = ''02''" "fmt_zero2 5 = ''05''"
    by (simp_all add: fmt_zero2_def digits.simps digit_def)
  have "time_str 3725 = ''01:02:05''"
    unfolding c8 by (simp add: two)
  then have h': "hud frame_laps = Inr (''Lap 3'', ''Race: 01:02:05'')"
    using h by (simp add: frame_laps_def)
  have g: "tuple_gt (3, 10) (2, 50)"
    unfolding c4 by simp
  have "0 \<le> (5::int) \<and> (5::int) < 100"
    by simp
  from c9 [rule_format, OF this] have f: "fmt_zero2 5 = ''05''"
    by (simp add: digit_def)
  have "0 \<le> (3725::real) \<and> (3725::real) < 360000"
    by simp
  from c10 [rule_format, OF this] have len: "length (time_str 3725) = 8" .
  have ne: "drivers frame_laps \<noteq> []"
    by (simp add: frame_laps_def)
  from c2 [rule_format, OF ne] obtain c p where l2: "leader frame_laps = Inr (c, p)"
    and mx: "\<forall>e\<in>set (drivers frame_laps). \<not> tuple_gt (leader_key (snd e)) (leader_key p)"
    by blast
  from l l2 have "p = ?pb" by simp
  with mx have mx': "\<forall>e\<in>set (drivers frame_laps). \<not> tuple_gt (leader_key (snd e)) (leader_key ?pb)"
    by simp
  have "(''A'', ?pa) \<in> set (drivers frame_laps)"
    by (simp add: frame_laps_def)
  with mx' have mx'': "\<not> tuple_gt (leader_key ?pa) (leader_key ?pb)"
    by fastforce
  have "lap ?pb = Some 3 \<and> dist' ?pb = Some 10"
    by (simp add: entry_def)
  from c3 [rule_format, OF this] have lk: "leader_key ?pb = (3, 10)" .
  have "0 \<le> (5::int) \<and> (5::int) < 10"
    by simp
  from c5 [rule_format, OF this] have si: "str_int 5 = ''5''"
    by (simp add: digit_def)
  from l h' g f len ne mx'' lk si show ?thesis by blast
qed

text \<open>
  Claim C10, as amended. A driver entry without the distance field has leaderboard sort
  key 999, so in the ranking it stands before every driver whose distance is below 999.
  Leader selection reads the same missing field as 0, and a missing lap as 1: such a
  driver is not the leader whenever some driver on the same or a later lap has a positive
  distance (otherwise it can be). On the frame with Y (lap 1, distance 500) and X (no
  lap, no distance), X is first on the leaderboard and Y is the leader.
\<close>

theorem missing_distance_defaults_differ:
  "(dist' p = None \<longrightarrow> leaderboard_key (c, col, p) = 999 \<and> snd (leader_key p) = 0) \<and>
   (lap p = None \<longrightarrow> fst (leader_key p) = 1) \<and>
   (i < length (drivers f) \<and> j < length (drivers f) \<and>
    dist' (snd (snd (ranking colors f ! i))) = None \<and>
    (\<exists>d. dist' (snd (snd (ranking colors f ! j))) = Some d \<and> d < 999) \<longrightarrow> i < j) \<and>
   ((c, p) \<in> set (drivers f) \<and> dist' p = None \<and> (c', p') \<in> set (drivers f) \<and>
    dist' p' = Some d' \<and> 0 < d' \<and> fst (leader_key p) \<le> fst (leader_key p') \<longrightarrow>
      leader f \<noteq> Inr (c, p)) \<and>
   map fst (ranking colors frame_missing) = [''X'', ''Y''] \<and>
   leader frame_missing = Inr (''Y'', entry (Some 1) (Some 500) None)"
proof (intro conjI impI)
  assume "dist' p = None"
  then show "leaderboard_key (c, col, p) = 999" and "snd (leader_key p) = 0"
    by (simp_all add: leaderboard_key_def leader_key_def)
next
  assume "lap p = None"
  then show "fst (leader_key p) = 1"
    by (simp add: leader_key_def)
next
  assume a: "i < length (drivers f) \<and> j < length (drivers f) \<and>
    dist' (snd (snd (ranking colors f ! i))) = None \<and>
    (\<exists>d. dist' (snd (snd (ranking colors f ! j))) = Some d \<and> d < 999)"
  then have ki: "leaderboard_key (ranking colors f ! i) = 999"
    by (simp add: leaderboard_key_def)
  from a have kj: "leaderboard_key (ranking colors f ! j) < 999"
    by (auto simp: leaderboard_key_def)
  have s: "sorted_wrt (\<lambda>a b. leaderboard_key b \<le> leaderboard_key a) (ranking colors f)"
    unfolding ranking_def by (rule sorted_sort_reverse)
  have "j < length (ranking colors f)" and "i < length (ranking colors f)"
    using a by (simp_all add: ranking_length)
  moreover have "leaderboard_key (ranking colors f ! j) < leaderboard_key (ranking colors f ! i)"
    using ki kj by simp
  ultimately show "i < j"
    using sorted_desc_earlier [OF s] by blast
next
  assume a: "(c, p) \<in> set (drivers f) \<and> dist' p = None \<and> (c', p') \<in> set (drivers f) \<and>
    dist' p' = Some d' \<and> 0 < d' \<and> fst (leader_key p) \<le> fst (leader_key p')"
  then have "snd (leader_key p) = 0" and "snd (leader_key p') = d'"
    by (simp_all add: leader_key_def)
  with a have gt: "tuple_gt (leader_key p') (leader_key p)"
    by (auto simp: tuple_gt_iff)
  show "leader f \<noteq> Inr (c, p)"
  proof
    assume "leader f = Inr (c, p)"
    then have "\<forall>e\<in>set (drivers f). \<not> tuple_gt (leader_key (snd e)) (leader_key p)"
      by (rule leader_greatest(2))
    with a have "\<not> tuple_gt (leader_key (snd (c', p'))) (leader_key p)"
      by blast
    with gt show False by simp
  qed
next
  show "map fst (ranking colors frame_missing) = [''X'', ''Y'']"
    by (simp add: ranking_def sort_reverse_def driver_list_def frame_missing_def
        leaderboard_key_def entry_def)
  show "leader frame_missing = Inr (''Y'', entry (Some 1) (Some 500) None)"
    by (simp add: leader_def frame_missing_def leader_key_def tuple_gt_def entry_def)
qed

theorem missing_distance_defaults_differ_witness:
  "leaderboard_key (''X'', WHITE, entry None None None) = 999 \<and>
   leader_key (entry None None None) = (1, 0) \<and>
   map fst (ranking Map.empty frame_missing) = [''X'', ''Y''] \<and>
   leader frame_missing \<noteq> Inr (''X'', entry None None None) \<and>
   leader frame_missing = Inr (''Y'', entry (Some 1) (Some 500) None) \<and>
   dist' (snd (snd (ranking Map.empty frame_missing ! 0))) = None \<and>
   dist' (snd (snd (ranking Map.empty frame_missing ! 1))) = Some 500 \<and>
   (0::nat) < 1"
proof -
  let ?p = "entry None None None"
  let ?p' = "entry (Some 1) (Some 500) None"
  note inst = missing_distance_defaults_differ
    [of ?p "''X''" WHITE 0 frame_missing 1 Map.empty "''Y''" ?p' 500]
  have none: "dist' ?p = None" "lap ?p = None"
    by (simp_all add: entry_def)
  from inst none have k: "leaderboard_key (''X'', WHITE, ?p) = 999"
    and k2: "snd (leader_key ?p) = 0" and k1: "fst (leader_key ?p) = 1"
    by blast+
  from k1 k2 have lk: "leader_key ?p = (1, 0)"
    by (simp add: prod_eq_iff)
  have hyp: "(''X'', ?p) \<in> set (drivers frame_missing) \<and> dist' ?p = None \<and>
      (''Y'', ?p') \<in> set (drivers frame_missing) \<and> dist' ?p' = Some 500 \<and> (0::real) < 500 \<and>
      fst (leader_key ?p) \<le> fst (leader_key ?p')"
    by (simp add: frame_missing_def entry_def leader_key_def)
  from inst hyp have nl: "leader frame_missing \<noteq> Inr (''X'', ?p)"
    by blast
  from inst have r: "map fst (ranking Map.empty frame_missing) = [''X'', ''Y'']"
    and l: "leader frame_missing = Inr (''Y'', ?p')"
    by blast+
  have rk: "ranking Map.empty frame_missing = [(''X'', WHITE, ?p), (''Y'', WHITE, ?p')]"
    by (simp add: ranking_def sort_reverse_def driver_list_def frame_missing_def
        leaderboard_key_def entry_def)
  have d0: "dist' (snd (snd (ranking Map.empty frame_missing ! 0))) = None"
    and d1: "dist' (snd (snd (ranking Map.empty frame_missing ! 1))) = Some 500"
    unfolding rk by (simp_all add: entry_def)
  have "0 < length (drivers frame_missing) \<and> 1 < length (drivers frame_missing) \<and>
      dist' (snd (snd (ranking Map.empty frame_missing ! 0))) = None \<and>
      (\<exists>d. dist' (snd (snd (ranking Map.empty frame_missing ! 1))) = Some d \<and> d < 999)"
    using d0 d1 by (simp add: frame_missing_def)
  with inst have lt: "(0::nat) < 1"
    by blast
  from k lk r nl l d0 d1 lt show ?thesis by blast
qed

text \<open>
  A driver without a distance can be the leader: on the frame with Y (lap 1, distance
  500) and X (lap 5, no distance), X is first on the leaderboard and is also the leader,
  its lap being the greater.
\<close>

theorem missing_distance_leader_counterexample:
  "map fst (ranking Map.empty frame_missing_ahead) = [''X'', ''Y''] \<and>
   dist' (entry (Some 5) None None) = None \<and>
   leader frame_missing_ahead = Inr (''X'', entry (Some 5) None None)"
  by (simp add: ranking_def sort_reverse_def driver_list_def frame_missing_ahead_def
      leaderboard_key_def entry_def leader_def leader_key_def tuple_gt_def)

section \<open>Track geometry: properties\<close>

lemma np_gradient_ok:
  "2 \<le> length f \<Longrightarrow> np_gradient f = Inr (map (gradient_at f) [0..<length f])"
  by (simp add: np_gradient_def)

lemma np_gradient_short: "length f < 2 \<Longrightarrow> np_gradient f = Inl ValueError"
  by (simp add: np_gradient_def)

lemma guard_zero_nonzero: "n \<in> set (guard_zero ns) \<Longrightarrow> n \<noteq> 0"
  by (auto simp: guard_zero_def)

lemma length_guard_zero: "length (guard_zero ns) = length ns"
  by (simp add: guard_zero_def)

lemma length_tangent_norm: "length (tangent_norm dx dy) = min (length dx) (length dy)"
  by (simp add: tangent_norm_def)

lemma div_arrays_ok:
  "length as = length bs \<Longrightarrow> \<forall>b\<in>set bs. b \<noteq> 0 \<Longrightarrow> div_arrays as bs = Inr (map2 (/) as bs)"
proof (induction as bs rule: list_induct2)
  case Nil
  show ?case by simp
next
  case (Cons a as b bs)
  then show ?case by (simp add: py_div_def bind_res_def)
qed

lemma div_arrays_never_zero_division:
  "\<forall>b\<in>set bs. b \<noteq> 0 \<Longrightarrow> div_arrays as bs \<noteq> Inl ZeroDivisionError"
proof (induction as bs rule: div_arrays.induct)
  case 1
  show ?case by simp
next
  case (2 a as b bs)
  then show ?case
    by (cases "div_arrays as bs") (auto simp: py_div_def bind_res_def)
qed simp_all

lemma np_min_ok: "xs \<noteq> [] \<Longrightarrow> \<exists>m. np_min xs = Inr m"
  by (cases xs) (simp_all add: np_min_def)

lemma np_max_ok: "xs \<noteq> [] \<Longrightarrow> \<exists>m. np_max xs = Inr m"
  by (cases xs) (simp_all add: np_max_def)

lemma min3_ok: "a \<noteq> [] \<Longrightarrow> b \<noteq> [] \<Longrightarrow> c \<noteq> [] \<Longrightarrow> \<exists>m. min3 a b c = Inr m"
  using np_min_ok [of a] np_min_ok [of b] np_min_ok [of c]
  by (auto simp: min3_def bind_res_def)

lemma max3_ok: "a \<noteq> [] \<Longrightarrow> b \<noteq> [] \<Longrightarrow> c \<noteq> [] \<Longrightarrow> \<exists>m. max3 a b c = Inr m"
  using np_max_ok [of a] np_max_ok [of b] np_max_ok [of c]
  by (auto simp: max3_def bind_res_def)

lemma normalised_nth:
  assumes "i < length lap'"
  shows "map2 (/) (map (gradient_at (map fst lap')) [0..<length lap'])
            (guard_zero (tangent_norm (map (gradient_at (map fst lap')) [0..<length lap'])
                                      (map (gradient_at (map snd lap')) [0..<length lap']))) ! i
         = fst (unit_tangent lap' i)"
    and "map2 (/) (map (gradient_at (map snd lap')) [0..<length lap'])
            (guard_zero (tangent_norm (map (gradient_at (map fst lap')) [0..<length lap'])
                                      (map (gradient_at (map snd lap')) [0..<length lap']))) ! i
         = snd (unit_tangent lap' i)"
  using assms
  by (simp_all add: guard_zero_def tangent_norm_def unit_tangent_def Let_def)

lemma build_track_ok:
  assumes "2 \<le> length lap'"
  shows "\<exists>xmin xmax ymin ymax. build_track_from_example_lap lap' tw =
     Inr (map fst lap', map snd lap',
          map (\<lambda>i. fst (lap' ! i) + snd (unit_tangent lap' i) * (tw / 2)) [0..<length lap'],
          map (\<lambda>i. snd (lap' ! i) - fst (unit_tangent lap' i) * (tw / 2)) [0..<length lap'],
          map (\<lambda>i. fst (lap' ! i) - snd (unit_tangent lap' i) * (tw / 2)) [0..<length lap'],
          map (\<lambda>i. snd (lap' ! i) + fst (unit_tangent lap' i) * (tw / 2)) [0..<length lap'],
          xmin, xmax, ymin, ymax)"
proof -
  let ?n = "length lap'"
  let ?px = "map fst lap'" and ?py = "map snd lap'"
  let ?gx = "map (gradient_at ?px) [0..<?n]" and ?gy = "map (gradient_at ?py) [0..<?n]"
  let ?nrm = "guard_zero (tangent_norm ?gx ?gy)"
  define dx where "dx = map2 (/) ?gx ?nrm"
  define dy where "dy = map2 (/) ?gy ?nrm"
  let ?xi = "map (\<lambda>i. fst (lap' ! i) + snd (unit_tangent lap' i) * (tw / 2)) [0..<?n]"
  let ?yi = "map (\<lambda>i. snd (lap' ! i) - fst (unit_tangent lap' i) * (tw / 2)) [0..<?n]"
  let ?xo = "map (\<lambda>i. fst (lap' ! i) - snd (unit_tangent lap' i) * (tw / 2)) [0..<?n]"
  let ?yo = "map (\<lambda>i. snd (lap' ! i) + fst (unit_tangent lap' i) * (tw / 2)) [0..<?n]"
  have gx: "np_gradient ?px = Inr ?gx" and gy: "np_gradient ?py = Inr ?gy"
    using assms np_gradient_ok [of ?px] np_gradient_ok [of ?py] by simp_all
  have len: "length ?nrm = ?n"
    by (simp add: length_guard_zero length_tangent_norm)
  have nz: "\<forall>b\<in>set ?nrm. b \<noteq> 0"
    using guard_zero_nonzero by blast
  have dx: "div_arrays ?gx ?nrm = Inr dx" and dy: "div_arrays ?gy ?nrm = Inr dy"
    unfolding dx_def dy_def
    using div_arrays_ok [OF _ nz, of ?gx] div_arrays_ok [OF _ nz, of ?gy] len by simp_all
  have ldx: "length dx = ?n" and ldy: "length dy = ?n"
    unfolding dx_def dy_def using len by simp_all
  have dxi: "dx ! i = fst (unit_tangent lap' i)" and dyi: "dy ! i = snd (unit_tangent lap' i)"
    if "i < ?n" for i
    unfolding dx_def dy_def using normalised_nth [OF that] by blast+
  have xo: "map2 (\<lambda>p n. p + n * (tw / 2)) ?px (map uminus dy) = ?xo"
    using ldy by (intro nth_equalityI) (simp_all add: dyi)
  have yo: "map2 (\<lambda>p n. p + n * (tw / 2)) ?py dx = ?yo"
    using ldx by (intro nth_equalityI) (simp_all add: dxi)
  have xi: "map2 (\<lambda>p n. p - n * (tw / 2)) ?px (map uminus dy) = ?xi"
    using ldy by (intro nth_equalityI) (simp_all add: dyi)
  have yi: "map2 (\<lambda>p n. p - n * (tw / 2)) ?py dx = ?yi"
    using ldx by (intro nth_equalityI) (simp_all add: dxi)
  have ne: "?px \<noteq> []" "?py \<noteq> []" "?xi \<noteq> []" "?yi \<noteq> []" "?xo \<noteq> []" "?yo \<noteq> []"
    using assms by auto
  obtain xmin where xmin: "min3 ?px ?xi ?xo = Inr xmin"
    using min3_ok [OF ne(1) ne(3) ne(5)] by blast
  obtain xmax where xmax: "max3 ?px ?xi ?xo = Inr xmax"
    using max3_ok [OF ne(1) ne(3) ne(5)] by blast
  obtain ymin where ymin: "min3 ?py ?yi ?yo = Inr ymin"
    using min3_ok [OF ne(2) ne(4) ne(6)] by blast
  obtain ymax where ymax: "max3 ?py ?yi ?yo = Inr ymax"
    using max3_ok [OF ne(2) ne(4) ne(6)] by blast
  have "build_track_from_example_lap lap' tw =
      Inr (?px, ?py, ?xi, ?yi, ?xo, ?yo, xmin, xmax, ymin, ymax)"
    unfolding build_track_from_example_lap_def Let_def gx gy bind_res_def sum.case dx dy
      xo yo xi yi xmin xmax ymin ymax ..
  then show ?thesis by blast
qed

lemma build_track_short:
  "length lap' < 2 \<Longrightarrow> build_track_from_example_lap lap' tw = Inl ValueError"
  by (simp add: build_track_from_example_lap_def Let_def np_gradient_short bind_res_def)

lemma unit_tangent_zero:
  assumes "gradient_at (map fst lap') i = 0" and "gradient_at (map snd lap') i = 0"
  shows "unit_tangent lap' i = (0, 0)"
  using assms by (simp add: unit_tangent_def)

lemma unit_vector:
  fixes a b :: real
  assumes "a \<noteq> 0 \<or> b \<noteq> 0"
  shows "sqrt (a\<^sup>2 + b\<^sup>2) \<noteq> 0"
    and "(a / sqrt (a\<^sup>2 + b\<^sup>2))\<^sup>2 + (b / sqrt (a\<^sup>2 + b\<^sup>2))\<^sup>2 = 1"
proof -
  define s where "s = a\<^sup>2 + b\<^sup>2"
  have pos: "0 < s"
    unfolding s_def sum_power2_gt_zero_iff using assms .
  then have sq: "(sqrt s)\<^sup>2 = s"
    by simp
  show "sqrt (a\<^sup>2 + b\<^sup>2) \<noteq> 0"
    using real_sqrt_gt_zero [OF pos] unfolding s_def by linarith
  have "(a / sqrt s)\<^sup>2 + (b / sqrt s)\<^sup>2 = (a\<^sup>2 + b\<^sup>2) / (sqrt s)\<^sup>2"
    by (simp only: power_divide add_divide_distrib)
  also have "\<dots> = s / s"
    unfolding sq s_def [symmetric] ..
  also have "\<dots> = 1"
    using pos by simp
  finally show "(a / sqrt (a\<^sup>2 + b\<^sup>2))\<^sup>2 + (b / sqrt (a\<^sup>2 + b\<^sup>2))\<^sup>2 = 1"
    unfolding s_def .
qed

lemma unit_tangent_unit:
  assumes "gradient_at (map fst lap') i \<noteq> 0 \<or> gradient_at (map snd lap') i \<noteq> 0"
  shows "(fst (unit_tangent lap' i))\<^sup>2 + (snd (unit_tangent lap' i))\<^sup>2 = 1"
  using unit_vector [OF assms] by (simp add: unit_tangent_def Let_def)

lemma offset_distance:
  fixes u v h :: real
  assumes "u\<^sup>2 + v\<^sup>2 = 1"
  shows "sqrt ((v * h)\<^sup>2 + (u * h)\<^sup>2) = \<bar>h\<bar>"
proof -
  have "(v * h)\<^sup>2 + (u * h)\<^sup>2 = (u\<^sup>2 + v\<^sup>2) * h\<^sup>2"
    by (simp add: power_mult_distrib algebra_simps)
  then show ?thesis
    using assms by simp
qed

subsection \<open>Resampling\<close>

lemma length_linspace01: "length (linspace01 n) = n"
  by (simp add: linspace01_def)

lemma linspace01_ends:
  assumes "2 \<le> n"
  shows "linspace01 n ! 0 = 0" and "linspace01 n ! (n - 1) = 1"
  using assms by (simp_all add: linspace01_def)

lemma linspace01_range:
  assumes "v \<in> set (linspace01 n)"
  shows "0 \<le> v \<and> v \<le> 1"
proof (cases "n = 1")
  case True
  with assms show ?thesis by (simp add: linspace01_def)
next
  case False
  with assms obtain i where i: "i < n" and v: "v = real i / real (n - 1)"
    by (auto simp: linspace01_def)
  from i have "real i \<le> real (n - 1)" by simp
  moreover from i False have "0 < real (n - 1)" by simp
  ultimately show ?thesis
    unfolding v by simp
qed

lemma interp_at_segment:
  assumes n: "2 \<le> length xp" and lo: "xp ! 0 \<le> x" and hi: "x \<le> xp ! (length xp - 1)"
  shows "\<exists>j l. j + 1 < length xp \<and> 0 \<le> l \<and> l \<le> 1 \<and>
           (\<forall>fp. interp_at xp fp x = (1 - l) * fp ! j + l * fp ! (j + 1))"
proof -
  let ?tw = "takeWhile (\<lambda>v. v \<le> x) xp"
  let ?k = "length ?tw"
  let ?j = "?k - 1"
  from n obtain a rest where xp: "xp = a # rest"
    by (cases xp) auto
  with lo have "a \<le> x" by simp
  then have k1: "1 \<le> ?k"
    by (simp add: xp)
  have kn: "?k \<le> length xp"
    by (rule length_takeWhile_le)
  have jk: "?j < ?k"
    using k1 by simp
  have "?tw ! ?j \<in> set ?tw"
    using jk by (rule nth_mem)
  moreover have "?tw ! ?j = xp ! ?j"
    using jk by (rule takeWhile_nth)
  ultimately have "xp ! ?j \<in> set ?tw"
    by simp
  then have xj: "xp ! ?j \<le> x"
    using set_takeWhileD [of "xp ! ?j" "\<lambda>v. v \<le> x" xp] by blast
  have base: "interp_at xp fp x =
      (if ?j = length xp - 1 then fp ! ?j
       else if xp ! ?j = x then fp ! ?j
       else (fp ! (?j + 1) - fp ! ?j) / (xp ! (?j + 1) - xp ! ?j) * (x - xp ! ?j) + fp ! ?j)" for fp
    using lo hi by (simp add: interp_at_def Let_def)
  show ?thesis
  proof (cases "?k = length xp")
    case True
    then have last: "?j = length xp - 1" by simp
    have "interp_at xp fp x = (1 - 1) * fp ! (length xp - 2) + 1 * fp ! (length xp - 2 + 1)" for fp
    proof -
      have "length xp - 2 + 1 = length xp - 1"
        using n by simp
      then show ?thesis
        using base [of fp] last by simp
    qed
    moreover have "length xp - 2 + 1 < length xp"
      using n by simp
    ultimately show ?thesis
      by (intro exI [of _ "length xp - 2"] exI [of _ "1::real"]) simp
  next
    case False
    with kn have klt: "?k < length xp" by simp
    then have "\<not> xp ! ?k \<le> x"
      by (rule nth_length_takeWhile)
    moreover have "?j + 1 = ?k"
      using k1 by simp
    ultimately have up: "x < xp ! (?j + 1)"
      by (simp only: not_le)
    have j1: "?j + 1 < length xp"
      using klt k1 by simp
    then have notlast: "?j \<noteq> length xp - 1"
      by simp
    show ?thesis
    proof (cases "xp ! ?j = x")
      case True
      then have "interp_at xp fp x = (1 - 0) * fp ! ?j + 0 * fp ! (?j + 1)" for fp
        using base [of fp] notlast by simp
      with j1 show ?thesis
        by (intro exI [of _ ?j] exI [of _ "0::real"]) simp
    next
      case False
      define d where "d = xp ! (?j + 1) - xp ! ?j"
      define l where "l = (x - xp ! ?j) / d"
      have dpos: "0 < d"
        using xj up by (simp add: d_def)
      have l0: "0 \<le> l" and l1: "l \<le> 1"
        using xj up dpos by (simp_all add: l_def d_def)
      have "interp_at xp fp x = (1 - l) * fp ! ?j + l * fp ! (?j + 1)" for fp
      proof -
        have "interp_at xp fp x = (fp ! (?j + 1) - fp ! ?j) / d * (x - xp ! ?j) + fp ! ?j"
          using base [of fp] notlast False by (simp add: d_def)
        also have "\<dots> = (fp ! (?j + 1) - fp ! ?j) * l + fp ! ?j"
          by (simp add: l_def)
        also have "\<dots> = (1 - l) * fp ! ?j + l * fp ! (?j + 1)"
          by (simp add: algebra_simps)
        finally show ?thesis .
      qed
      with j1 l0 l1 show ?thesis
        by (intro exI [of _ ?j] exI [of _ l]) simp
    qed
  qed
qed

lemma np_interp_ok:
  "xp \<noteq> [] \<Longrightarrow> np_interp xs xp fp = Inr (map (interp_at xp fp) xs)"
  by (simp add: np_interp_def)

lemma interpolate_points_ok:
  assumes "xs \<noteq> []"
  shows "interpolate_points xs ys m =
     Inr (map (\<lambda>v. (interp_at (linspace01 (length xs)) xs v, interp_at (linspace01 (length xs)) ys v))
              (linspace01 m))"
proof -
  have "linspace01 (length xs) \<noteq> []"
    using assms length_linspace01 [of "length xs"] by auto
  then show ?thesis
    by (simp add: interpolate_points_def Let_def np_interp_ok bind_res_def zip_map_map
        zip_same_conv_map)
qed

lemma interpolate_points_empty: "interpolate_points [] ys m = Inl ValueError"
  by (simp add: interpolate_points_def Let_def np_interp_def bind_res_def linspace01_def)

lemma interpolate_points_length:
  assumes "interpolate_points xs ys m = Inr ps"
  shows "length ps = m"
proof (cases "xs = []")
  case True
  with assms show ?thesis by (simp add: interpolate_points_empty)
next
  case False
  from assms show ?thesis
    unfolding interpolate_points_ok [OF False] by (auto simp: length_linspace01)
qed

lemma interpolate_points_on_segments:
  assumes "2 \<le> length xs" and "interpolate_points xs ys m = Inr ps" and "p \<in> set ps"
  shows "\<exists>j l. j + 1 < length xs \<and> 0 \<le> l \<and> l \<le> 1 \<and>
     p = ((1 - l) * xs ! j + l * xs ! (j + 1), (1 - l) * ys ! j + l * ys ! (j + 1))"
proof -
  let ?xp = "linspace01 (length xs)"
  have ne: "xs \<noteq> []"
    using assms(1) by auto
  from assms(2,3) obtain v where v: "v \<in> set (linspace01 m)"
    and p: "p = (interp_at ?xp xs v, interp_at ?xp ys v)"
    unfolding interpolate_points_ok [OF ne] by auto
  have len: "2 \<le> length ?xp" "length ?xp = length xs"
    using assms(1) by (simp_all add: length_linspace01)
  have "?xp ! 0 \<le> v" and "v \<le> ?xp ! (length ?xp - 1)"
    using linspace01_range [OF v] linspace01_ends [OF assms(1)] len(2) by simp_all
  from interp_at_segment [OF len(1) this] obtain j l where
    "j + 1 < length ?xp" and "0 \<le> l" and "l \<le> 1"
    and "\<forall>fp. interp_at ?xp fp v = (1 - l) * fp ! j + l * fp ! (j + 1)"
    by blast
  then show ?thesis
    unfolding p len(2) by blast
qed

subsection \<open>Boundary vertices and window construction\<close>

lemma build_track_vertices:
  assumes "build_track_from_example_lap lap' tw = Inr (px, py, xi, yi, xo, yo, bounds)"
  shows "2 \<le> length lap'"
    and "px = map fst lap'" and "py = map snd lap'"
    and "xi = map (\<lambda>i. fst (lap' ! i) + snd (unit_tangent lap' i) * (tw / 2)) [0..<length lap']"
    and "yi = map (\<lambda>i. snd (lap' ! i) - fst (unit_tangent lap' i) * (tw / 2)) [0..<length lap']"
    and "xo = map (\<lambda>i. fst (lap' ! i) - snd (unit_tangent lap' i) * (tw / 2)) [0..<length lap']"
    and "yo = map (\<lambda>i. snd (lap' ! i) + fst (unit_tangent lap' i) * (tw / 2)) [0..<length lap']"
proof -
  show n: "2 \<le> length lap'"
  proof (rule ccontr)
    assume "\<not> 2 \<le> length lap'"
    then have "length lap' < 2" by simp
    then have "build_track_from_example_lap lap' tw = Inl ValueError"
      by (rule build_track_short)
    with assms show False by simp
  qed
  from build_track_ok [OF n, of tw] assms
  show "px = map fst lap'" and "py = map snd lap'"
    and "xi = map (\<lambda>i. fst (lap' ! i) + snd (unit_tangent lap' i) * (tw / 2)) [0..<length lap']"
    and "yi = map (\<lambda>i. snd (lap' ! i) - fst (unit_tangent lap' i) * (tw / 2)) [0..<length lap']"
    and "xo = map (\<lambda>i. fst (lap' ! i) - snd (unit_tangent lap' i) * (tw / 2)) [0..<length lap']"
    and "yo = map (\<lambda>i. snd (lap' ! i) + fst (unit_tangent lap' i) * (tw / 2)) [0..<length lap']"
    by auto
qed

lemma distance_offset_unit:
  assumes "u\<^sup>2 + v\<^sup>2 = 1"
  shows "distance (fst p + v * h, snd p - u * h) p = \<bar>h\<bar>"
    and "distance (fst p - v * h, snd p + u * h) p = \<bar>h\<bar>"
  using offset_distance [OF assms, of h] by (simp_all add: distance_def)

lemma vertex_offsets:
  assumes "i < length lap'"
  shows "gradient_at (map fst lap') i \<noteq> 0 \<or> gradient_at (map snd lap') i \<noteq> 0 \<Longrightarrow>
      distance (fst (lap' ! i) + snd (unit_tangent lap' i) * h,
                snd (lap' ! i) - fst (unit_tangent lap' i) * h) (lap' ! i) = \<bar>h\<bar> \<and>
      distance (fst (lap' ! i) - snd (unit_tangent lap' i) * h,
                snd (lap' ! i) + fst (unit_tangent lap' i) * h) (lap' ! i) = \<bar>h\<bar>"
    and "gradient_at (map fst lap') i = 0 \<and> gradient_at (map snd lap') i = 0 \<Longrightarrow>
      (fst (lap' ! i) + snd (unit_tangent lap' i) * h,
       snd (lap' ! i) - fst (unit_tangent lap' i) * h) = lap' ! i \<and>
      (fst (lap' ! i) - snd (unit_tangent lap' i) * h,
       snd (lap' ! i) + fst (unit_tangent lap' i) * h) = lap' ! i"
proof -
  assume "gradient_at (map fst lap') i \<noteq> 0 \<or> gradient_at (map snd lap') i \<noteq> 0"
  then have "(fst (unit_tangent lap' i))\<^sup>2 + (snd (unit_tangent lap' i))\<^sup>2 = 1"
    by (rule unit_tangent_unit)
  then show "distance (fst (lap' ! i) + snd (unit_tangent lap' i) * h,
                snd (lap' ! i) - fst (unit_tangent lap' i) * h) (lap' ! i) = \<bar>h\<bar> \<and>
      distance (fst (lap' ! i) - snd (unit_tangent lap' i) * h,
                snd (lap' ! i) + fst (unit_tangent lap' i) * h) (lap' ! i) = \<bar>h\<bar>"
    using distance_offset_unit [of "fst (unit_tangent lap' i)" "snd (unit_tangent lap' i)" "lap' ! i" h]
    by blast
next
  assume "gradient_at (map fst lap') i = 0 \<and> gradient_at (map snd lap') i = 0"
  then have "unit_tangent lap' i = (0, 0)"
    using unit_tangent_zero by blast
  then show "(fst (lap' ! i) + snd (unit_tangent lap' i) * h,
       snd (lap' ! i) - fst (unit_tangent lap' i) * h) = lap' ! i \<and>
      (fst (lap' ! i) - snd (unit_tangent lap' i) * h,
       snd (lap' ! i) + fst (unit_tangent lap' i) * h) = lap' ! i"
    by simp
qed

lemma update_scaling_keeps_track:
  assumes "update_scaling w sw sh = Inr w'"
  shows "x_inner w' = x_inner w" and "y_inner w' = y_inner w"
    and "x_outer w' = x_outer w" and "y_outer w' = y_outer w"
    and "plot_x_ref w' = plot_x_ref w" and "plot_y_ref w' = plot_y_ref w"
  using assms unfolding update_scaling_total by auto

lemma init_window_result:
  assumes "init_window fr lap' sp col = Inr w"
  shows "\<exists>bounds. build_track_from_example_lap lap' 200 =
           Inr (plot_x_ref w, plot_y_ref w, x_inner w, y_inner w, x_outer w, y_outer w, bounds)"
    and "interpolate_points (x_inner w) (y_inner w) 2000 = Inr (world_inner_points w)"
    and "interpolate_points (x_outer w) (y_outer w) 2000 = Inr (world_outer_points w)"
proof -
  from assms obtain px py xi yi xo yo xmin xmax ymin ymax where
    b: "build_track_from_example_lap lap' 200 = Inr (px, py, xi, yi, xo, yo, xmin, xmax, ymin, ymax)"
    by (cases "build_track_from_example_lap lap' 200")
       (auto simp: init_window_def bind_res_def)
  from assms b obtain inner where i: "interpolate_points xi yi 2000 = Inr inner"
    by (cases "interpolate_points xi yi 2000") (auto simp: init_window_def bind_res_def)
  from assms b i obtain outer where o: "interpolate_points xo yo 2000 = Inr outer"
    by (cases "interpolate_points xo yo 2000") (auto simp: init_window_def bind_res_def)
  let ?w0 = "\<lparr>frames = fr, n_frames = int (length fr), playback_speed = sp,
          driver_colors = col, frame_index = 0, paused = False,
          plot_x_ref = px, plot_y_ref = py, x_inner = xi, y_inner = yi,
          x_outer = xo, y_outer = yo,
          x_min = xmin, x_max = xmax, y_min = ymin, y_max = ymax,
          world_inner_points = inner, world_outer_points = outer,
          screen_inner_points = [], screen_outer_points = [],
          world_scale = 1, tx = 0, ty = 0,
          width = SCREEN_WIDTH, height = SCREEN_HEIGHT\<rparr>"
  have u: "update_scaling ?w0 SCREEN_WIDTH SCREEN_HEIGHT = Inr w"
    using assms by (simp add: init_window_def bind_res_def b i o)
  note k = update_scaling_keeps_track [OF u] update_scaling_fields(8,9) [OF u]
  show "\<exists>bounds. build_track_from_example_lap lap' 200 =
           Inr (plot_x_ref w, plot_y_ref w, x_inner w, y_inner w, x_outer w, y_outer w, bounds)"
    using b by (simp add: k)
  show "interpolate_points (x_inner w) (y_inner w) 2000 = Inr (world_inner_points w)"
    using i by (simp add: k)
  show "interpolate_points (x_outer w) (y_outer w) 2000 = Inr (world_outer_points w)"
    using o by (simp add: k)
qed

lemma init_window_ok:
  assumes "2 \<le> length lap'"
  shows "\<exists>w. init_window fr lap' sp col = Inr w"
proof -
  from build_track_ok [OF assms, of 200] obtain px py xi yi xo yo xmin xmax ymin ymax where
    b: "build_track_from_example_lap lap' 200 = Inr (px, py, xi, yi, xo, yo, xmin, xmax, ymin, ymax)"
    by blast
  from build_track_vertices(4,6) [OF b] assms have ne: "xi \<noteq> []" "xo \<noteq> []"
    by auto
  obtain inner where i: "interpolate_points xi yi 2000 = Inr inner"
    using interpolate_points_ok [OF ne(1)] by blast
  obtain outer where o: "interpolate_points xo yo 2000 = Inr outer"
    using interpolate_points_ok [OF ne(2)] by blast
  show ?thesis
    unfolding init_window_def b i o bind_res_def sum.case prod.case
    using update_scaling_total by blast
qed

lemma init_window_short:
  "length lap' < 2 \<Longrightarrow> init_window fr lap' sp col = Inl ValueError"
  by (simp add: init_window_def build_track_short bind_res_def)

lemma init_window_properties:
  assumes "init_window fr lap' sp col = Inr w"
  shows "length (world_inner_points w) = 2000 \<and> length (world_outer_points w) = 2000 \<and>
     length (x_inner w) = length lap' \<and> length (y_inner w) = length lap' \<and>
     length (x_outer w) = length lap' \<and> length (y_outer w) = length lap' \<and>
     (\<forall>i<length lap'.
        (x_inner w ! i, y_inner w ! i) =
          (fst (lap' ! i) + snd (unit_tangent lap' i) * 100,
           snd (lap' ! i) - fst (unit_tangent lap' i) * 100) \<and>
        (x_outer w ! i, y_outer w ! i) =
          (fst (lap' ! i) - snd (unit_tangent lap' i) * 100,
           snd (lap' ! i) + fst (unit_tangent lap' i) * 100) \<and>
        (gradient_at (map fst lap') i \<noteq> 0 \<or> gradient_at (map snd lap') i \<noteq> 0 \<longrightarrow>
           distance (x_inner w ! i, y_inner w ! i) (lap' ! i) = 100 \<and>
           distance (x_outer w ! i, y_outer w ! i) (lap' ! i) = 100) \<and>
        (gradient_at (map fst lap') i = 0 \<and> gradient_at (map snd lap') i = 0 \<longrightarrow>
           (x_inner w ! i, y_inner w ! i) = lap' ! i \<and>
           (x_outer w ! i, y_outer w ! i) = lap' ! i)) \<and>
     (\<forall>p\<in>set (world_inner_points w). \<exists>j l. j + 1 < length lap' \<and> 0 \<le> l \<and> l \<le> 1 \<and>
        p = ((1 - l) * x_inner w ! j + l * x_inner w ! (j + 1),
             (1 - l) * y_inner w ! j + l * y_inner w ! (j + 1))) \<and>
     (\<forall>p\<in>set (world_outer_points w). \<exists>j l. j + 1 < length lap' \<and> 0 \<le> l \<and> l \<le> 1 \<and>
        p = ((1 - l) * x_outer w ! j + l * x_outer w ! (j + 1),
             (1 - l) * y_outer w ! j + l * y_outer w ! (j + 1)))"
proof -
  from init_window_result [OF assms] obtain bounds where
    b: "build_track_from_example_lap lap' 200 =
          Inr (plot_x_ref w, plot_y_ref w, x_inner w, y_inner w, x_outer w, y_outer w, bounds)"
    and inner: "interpolate_points (x_inner w) (y_inner w) 2000 = Inr (world_inner_points w)"
    and outer: "interpolate_points (x_outer w) (y_outer w) 2000 = Inr (world_outer_points w)"
    by blast
  note v = build_track_vertices [OF b]
  have xi: "x_inner w = map (\<lambda>i. fst (lap' ! i) + snd (unit_tangent lap' i) * 100) [0..<length lap']"
    and yi: "y_inner w = map (\<lambda>i. snd (lap' ! i) - fst (unit_tangent lap' i) * 100) [0..<length lap']"
    and xo: "x_outer w = map (\<lambda>i. fst (lap' ! i) - snd (unit_tangent lap' i) * 100) [0..<length lap']"
    and yo: "y_outer w = map (\<lambda>i. snd (lap' ! i) + fst (unit_tangent lap' i) * 100) [0..<length lap']"
    using v(4-7) by simp_all
  have lens: "length (x_inner w) = length lap'" "length (y_inner w) = length lap'"
    "length (x_outer w) = length lap'" "length (y_outer w) = length lap'"
    by (simp_all add: xi yi xo yo)
  have l1: "length (world_inner_points w) = 2000"
    using inner by (rule interpolate_points_length)
  have l2: "length (world_outer_points w) = 2000"
    using outer by (rule interpolate_points_length)
  have vert: "(x_inner w ! i, y_inner w ! i) =
          (fst (lap' ! i) + snd (unit_tangent lap' i) * 100,
           snd (lap' ! i) - fst (unit_tangent lap' i) * 100) \<and>
        (x_outer w ! i, y_outer w ! i) =
          (fst (lap' ! i) - snd (unit_tangent lap' i) * 100,
           snd (lap' ! i) + fst (unit_tangent lap' i) * 100) \<and>
        (gradient_at (map fst lap') i \<noteq> 0 \<or> gradient_at (map snd lap') i \<noteq> 0 \<longrightarrow>
           distance (x_inner w ! i, y_inner w ! i) (lap' ! i) = 100 \<and>
           distance (x_outer w ! i, y_outer w ! i) (lap' ! i) = 100) \<and>
        (gradient_at (map fst lap') i = 0 \<and> gradient_at (map snd lap') i = 0 \<longrightarrow>
           (x_inner w ! i, y_inner w ! i) = lap' ! i \<and>
           (x_outer w ! i, y_outer w ! i) = lap' ! i)" if i: "i < length lap'" for i
  proof -
    have e1: "(x_inner w ! i, y_inner w ! i) =
          (fst (lap' ! i) + snd (unit_tangent lap' i) * 100,
           snd (lap' ! i) - fst (unit_tangent lap' i) * 100)"
      and e2: "(x_outer w ! i, y_outer w ! i) =
          (fst (lap' ! i) - snd (unit_tangent lap' i) * 100,
           snd (lap' ! i) + fst (unit_tangent lap' i) * 100)"
      using i by (simp_all add: xi yi xo yo)
    show ?thesis
      unfolding e1 e2
      using vertex_offsets [OF i, of 100] by simp
  qed
  have seg_in: "\<exists>j l. j + 1 < length lap' \<and> 0 \<le> l \<and> l \<le> 1 \<and>
        p = ((1 - l) * x_inner w ! j + l * x_inner w ! (j + 1),
             (1 - l) * y_inner w ! j + l * y_inner w ! (j + 1))"
    if "p \<in> set (world_inner_points w)" for p
    using interpolate_points_on_segments [OF _ inner that] v(1) lens(1) by simp
  have seg_out: "\<exists>j l. j + 1 < length lap' \<and> 0 \<le> l \<and> l \<le> 1 \<and>
        p = ((1 - l) * x_outer w ! j + l * x_outer w ! (j + 1),
             (1 - l) * y_outer w ! j + l * y_outer w ! (j + 1))"
    if "p \<in> set (world_outer_points w)" for p
    using interpolate_points_on_segments [OF _ outer that] v(1) lens(3) by simp
  from l1 l2 lens vert seg_in seg_out show ?thesis
    by blast
qed

text \<open>
  Claim C2, as amended. For every lap of at least two samples the window is constructed,
  and its inner and outer boundary point sequences each have the resample resolution,
  2000 points. Before resampling, boundary vertex \<open>i\<close> is the centreline sample \<open>i\<close>
  moved by 100 units, half of the track width 200, against or along the normal
  \<open>(- ty, tx)\<close> of the unit tangent \<open>(tx, ty)\<close> (the normalised gradient: central
  difference inside, one-sided at the two ends): it lies at distance 100 from that sample
  when the tangent is not zero, and on the sample when it is zero. Every resampled point
  lies on the segment between two consecutive boundary vertices. For any track width
  \<open>tw\<close> the distance is \<open>\<bar>tw\<bar> / 2\<close>, and for any resolution \<open>m\<close> the resampler returns
  \<open>m\<close> points. A lap of fewer than two samples is rejected with \<open>ValueError\<close>.
\<close>

theorem boundaries_at_half_track_width:
  "(2 \<le> length lap' \<longrightarrow>
      (\<exists>w. init_window fr lap' sp col = Inr w \<and>
         length (world_inner_points w) = 2000 \<and> length (world_outer_points w) = 2000 \<and>
         length (x_inner w) = length lap' \<and> length (y_inner w) = length lap' \<and>
         length (x_outer w) = length lap' \<and> length (y_outer w) = length lap' \<and>
         (\<forall>i<length lap'.
            (x_inner w ! i, y_inner w ! i) =
              (fst (lap' ! i) + snd (unit_tangent lap' i) * 100,
               snd (lap' ! i) - fst (unit_tangent lap' i) * 100) \<and>
            (x_outer w ! i, y_outer w ! i) =
              (fst (lap' ! i) - snd (unit_tangent lap' i) * 100,
               snd (lap' ! i) + fst (unit_tangent lap' i) * 100) \<and>
            (gradient_at (map fst lap') i \<noteq> 0 \<or> gradient_at (map snd lap') i \<noteq> 0 \<longrightarrow>
               distance (x_inner w ! i, y_inner w ! i) (lap' ! i) = 100 \<and>
               distance (x_outer w ! i, y_outer w ! i) (lap' ! i) = 100) \<and>
            (gradient_at (map fst lap') i = 0 \<and> gradient_at (map snd lap') i = 0 \<longrightarrow>
               (x_inner w ! i, y_inner w ! i) = lap' ! i \<and>
               (x_outer w ! i, y_outer w ! i) = lap' ! i)) \<and>
         (\<forall>p\<in>set (world_inner_points w). \<exists>j l. j + 1 < length lap' \<and> 0 \<le> l \<and> l \<le> 1 \<and>
            p = ((1 - l) * x_inner w ! j + l * x_inner w ! (j + 1),
                 (1 - l) * y_inner w ! j + l * y_inner w ! (j + 1))) \<and>
         (\<forall>p\<in>set (world_outer_points w). \<exists>j l. j + 1 < length lap' \<and> 0 \<le> l \<and> l \<le> 1 \<and>
            p = ((1 - l) * x_outer w ! j + l * x_outer w ! (j + 1),
                 (1 - l) * y_outer w ! j + l * y_outer w ! (j + 1))))) \<and>
   (length lap' < 2 \<longrightarrow> init_window fr lap' sp col = Inl ValueError) \<and>
   (interpolate_points xs ys m = Inr ps \<longrightarrow> length ps = m) \<and>
   (build_track_from_example_lap lap' tw = Inr (px, py, xi, yi, xo, yo, bounds) \<longrightarrow>
      (\<forall>i<length lap'.
         gradient_at (map fst lap') i \<noteq> 0 \<or> gradient_at (map snd lap') i \<noteq> 0 \<longrightarrow>
           distance (xi ! i, yi ! i) (lap' ! i) = \<bar>tw\<bar> / 2 \<and>
           distance (xo ! i, yo ! i) (lap' ! i) = \<bar>tw\<bar> / 2))"
proof (intro conjI impI allI)
  assume n: "2 \<le> length lap'"
  from init_window_ok [OF n] obtain w where w: "init_window fr lap' sp col = Inr w"
    by blast
  from init_window_properties [OF w] w
  show "\<exists>w. init_window fr lap' sp col = Inr w \<and>
         length (world_inner_points w) = 2000 \<and> length (world_outer_points w) = 2000 \<and>
         length (x_inner w) = length lap' \<and> length (y_inner w) = length lap' \<and>
         length (x_outer w) = length lap' \<and> length (y_outer w) = length lap' \<and>
         (\<forall>i<length lap'.
            (x_inner w ! i, y_inner w ! i) =
              (fst (lap' ! i) + snd (unit_tangent lap' i) * 100,
               snd (lap' ! i) - fst (unit_tangent lap' i) * 100) \<and>
            (x_outer w ! i, y_outer w ! i) =
              (fst (lap' ! i) - snd (unit_tangent lap' i) * 100,
               snd (lap' ! i) + fst (unit_tangent lap' i) * 100) \<and>
            (gradient_at (map fst lap') i \<noteq> 0 \<or> gradient_at (map snd lap') i \<noteq> 0 \<longrightarrow>
               distance (x_inner w ! i, y_inner w ! i) (lap' ! i) = 100 \<and>
               distance (x_outer w ! i, y_outer w ! i) (lap' ! i) = 100) \<and>
            (gradient_at (map fst lap') i = 0 \<and> gradient_at (map snd lap') i = 0 \<longrightarrow>
               (x_inner w ! i, y_inner w ! i) = lap' ! i \<and>
               (x_outer w ! i, y_outer w ! i) = lap' ! i)) \<and>
         (\<forall>p\<in>set (world_inner_points w). \<exists>j l. j + 1 < length lap' \<and> 0 \<le> l \<and> l \<le> 1 \<and>
            p = ((1 - l) * x_inner w ! j + l * x_inner w ! (j + 1),
                 (1 - l) * y_inner w ! j + l * y_inner w ! (j + 1))) \<and>
         (\<forall>p\<in>set (world_outer_points w). \<exists>j l. j + 1 < length lap' \<and> 0 \<le> l \<and> l \<le> 1 \<and>
            p = ((1 - l) * x_outer w ! j + l * x_outer w ! (j + 1),
                 (1 - l) * y_outer w ! j + l * y_outer w ! (j + 1)))"
    by (intro exI [of _ w] conjI) blast+
next
  assume "length lap' < 2"
  then show "init_window fr lap' sp col = Inl ValueError"
    by (rule init_window_short)
next
  assume "interpolate_points xs ys m = Inr ps"
  then show "length ps = m"
    by (rule interpolate_points_length)
next
  fix i
  assume b: "build_track_from_example_lap lap' tw = Inr (px, py, xi, yi, xo, yo, bounds)"
    and i: "i < length lap'"
    and g: "gradient_at (map fst lap') i \<noteq> 0 \<or> gradient_at (map snd lap') i \<noteq> 0"
  note v = build_track_vertices [OF b]
  have e1: "(xi ! i, yi ! i) =
      (fst (lap' ! i) + snd (unit_tangent lap' i) * (tw / 2),
       snd (lap' ! i) - fst (unit_tangent lap' i) * (tw / 2))"
    and e2: "(xo ! i, yo ! i) =
      (fst (lap' ! i) - snd (unit_tangent lap' i) * (tw / 2),
       snd (lap' ! i) + fst (unit_tangent lap' i) * (tw / 2))"
    using i by (simp_all add: v(4-7))
  have h: "\<bar>tw / 2\<bar> = \<bar>tw\<bar> / 2"
    by simp
  show "distance (xi ! i, yi ! i) (lap' ! i) = \<bar>tw\<bar> / 2"
    unfolding e1 using vertex_offsets(1) [OF i g, of "tw / 2"] h by simp
  show "distance (xo ! i, yo ! i) (lap' ! i) = \<bar>tw\<bar> / 2"
    unfolding e2 using vertex_offsets(1) [OF i g, of "tw / 2"] h by simp
qed

lemma unit_tangent_straight_lap: "unit_tangent straight_lap 1 = (1, 0)"
  by (simp add: unit_tangent_def straight_lap_def gradient_at_def Let_def)

lemma sqrt_10000: "sqrt 10000 = 100"
  by (rule real_sqrt_unique) simp_all

theorem boundaries_at_half_track_width_witness:
  "\<exists>w. init_window [] straight_lap (Finite 1) Map.empty = Inr w \<and>
      length (world_inner_points w) = 2000 \<and> length (world_outer_points w) = 2000 \<and>
      (x_inner w ! 1, y_inner w ! 1) = (1, - 100) \<and>
      (x_outer w ! 1, y_outer w ! 1) = (1, 100) \<and>
      distance (x_inner w ! 1, y_inner w ! 1) (1, 0) = 100 \<and>
      distance (x_outer w ! 1, y_outer w ! 1) (1, 0) = 100"
proof -
  note inst = boundaries_at_half_track_width [of straight_lap "[]" "Finite 1" Map.empty]
  have n: "2 \<le> length straight_lap"
    by (simp add: straight_lap_def)
  with inst obtain w where w: "init_window [] straight_lap (Finite 1) Map.empty = Inr w"
    and l: "length (world_inner_points w) = 2000" "length (world_outer_points w) = 2000"
    and v: "\<forall>i<length straight_lap.
            (x_inner w ! i, y_inner w ! i) =
              (fst (straight_lap ! i) + snd (unit_tangent straight_lap i) * 100,
               snd (straight_lap ! i) - fst (unit_tangent straight_lap i) * 100) \<and>
            (x_outer w ! i, y_outer w ! i) =
              (fst (straight_lap ! i) - snd (unit_tangent straight_lap i) * 100,
               snd (straight_lap ! i) + fst (unit_tangent straight_lap i) * 100) \<and>
            (gradient_at (map fst straight_lap) i \<noteq> 0 \<or> gradient_at (map snd straight_lap) i \<noteq> 0 \<longrightarrow>
               distance (x_inner w ! i, y_inner w ! i) (straight_lap ! i) = 100 \<and>
               distance (x_outer w ! i, y_outer w ! i) (straight_lap ! i) = 100) \<and>
            (gradient_at (map fst straight_lap) i = 0 \<and> gradient_at (map snd straight_lap) i = 0 \<longrightarrow>
               (x_inner w ! i, y_inner w ! i) = straight_lap ! i \<and>
               (x_outer w ! i, y_outer w ! i) = straight_lap ! i)"
    by blast
  have one: "1 < length straight_lap"
    by (simp add: straight_lap_def)
  have at1: "straight_lap ! 1 = (1, 0)"
    by (simp add: straight_lap_def)
  have g: "gradient_at (map fst straight_lap) 1 \<noteq> 0 \<or> gradient_at (map snd straight_lap) 1 \<noteq> 0"
    by (simp add: straight_lap_def gradient_at_def)
  note v1 = v [rule_format, OF one]
  from v1 have e1: "(x_inner w ! 1, y_inner w ! 1) =
      (fst (straight_lap ! 1) + snd (unit_tangent straight_lap 1) * 100,
       snd (straight_lap ! 1) - fst (unit_tangent straight_lap 1) * 100)"
    and e2: "(x_outer w ! 1, y_outer w ! 1) =
      (fst (straight_lap ! 1) - snd (unit_tangent straight_lap 1) * 100,
       snd (straight_lap ! 1) + fst (unit_tangent straight_lap 1) * 100)"
    by blast+
  from v1 g have d0: "distance (x_inner w ! 1, y_inner w ! 1) (straight_lap ! 1) = 100"
    "distance (x_outer w ! 1, y_outer w ! 1) (straight_lap ! 1) = 100"
    by blast+
  have i1: "(x_inner w ! 1, y_inner w ! 1) = (1, - 100)"
    unfolding e1 at1 unit_tangent_straight_lap by simp
  have o1: "(x_outer w ! 1, y_outer w ! 1) = (1, 100)"
    unfolding e2 at1 unit_tangent_straight_lap by simp
  have d: "distance (x_inner w ! 1, y_inner w ! 1) (1, 0) = 100"
    "distance (x_outer w ! 1, y_outer w ! 1) (1, 0) = 100"
    using d0 unfolding at1 by blast+
  from w l i1 o1 d show ?thesis
    by (intro exI [of _ w]) blast
qed

text \<open>
  The boundary does not lie 200 units from the centreline, and a non-empty lap does not
  always yield a boundary: on the straight three-sample lap the inner vertices lie 100
  units from their samples, and so does the first resampled inner point; the one-sample
  lap is rejected.
\<close>

theorem boundary_distance_counterexample:
  "build_track_from_example_lap straight_lap 200 =
     Inr ([0, 1, 2], [0, 0, 0], [0, 1, 2], [- 100, - 100, - 100], [0, 1, 2], [100, 100, 100],
          0, 2, - 100, 100) \<and>
   (case interpolate_points [0, 1, 2] [- 100, - 100, - 100] 2000 of
      Inl e \<Rightarrow> False | Inr ps \<Rightarrow> length ps = 2000 \<and> ps ! 0 = (0, - 100)) \<and>
   distance (0, - 100) (0, 0) = 100 \<and>
   distance (0, - 100) (0, 0) \<noteq> 200 \<and>
   init_window [] single_sample_lap (Finite 1) Map.empty = Inl ValueError"
proof (intro conjI)
  show "build_track_from_example_lap straight_lap 200 =
     Inr ([0, 1, 2], [0, 0, 0], [0, 1, 2], [- 100, - 100, - 100], [0, 1, 2], [100, 100, 100],
          0, 2, - 100, 100)"
    by (simp add: build_track_from_example_lap_def straight_lap_def np_gradient_def
        gradient_at_def tangent_norm_def guard_zero_def bind_res_def py_div_def min3_def
        max3_def np_min_def np_max_def Let_def)
  have ne: "[0, 1, 2 :: real] \<noteq> []"
    by simp
  have z: "linspace01 2000 ! 0 = 0"
    by (rule linspace01_ends) simp
  have l3: "linspace01 3 = [0, 1 / 2, 1]"
    by code_simp
  have "map (\<lambda>v. (interp_at (linspace01 3) [0, 1, 2] v, interp_at (linspace01 3) [- 100, - 100, - 100] v))
      (linspace01 2000) ! 0 = (0, - 100)"
    using z by (simp add: length_linspace01 interp_at_def Let_def l3)
  moreover have len3: "length [0, 1, 2 :: real] = 3"
    by simp
  have "interpolate_points [0, 1, 2] [- 100, - 100, - 100] 2000 =
      Inr (map (\<lambda>v. (interp_at (linspace01 3) [0, 1, 2] v,
                     interp_at (linspace01 3) [- 100, - 100, - 100] v)) (linspace01 2000))"
    using interpolate_points_ok [OF ne, of "[- 100, - 100, - 100]" 2000] unfolding len3 .
  ultimately show "case interpolate_points [0, 1, 2] [- 100, - 100, - 100] 2000 of
      Inl e \<Rightarrow> False | Inr ps \<Rightarrow> length ps = 2000 \<and> ps ! 0 = (0, - 100)"
    by (simp add: length_linspace01)
  show d: "distance (0, - 100) (0, 0) = 100"
    by (simp add: distance_def sqrt_10000)
  show "distance (0, - 100) (0, 0) \<noteq> 200"
    unfolding d by simp
  show "init_window [] single_sample_lap (Finite 1) Map.empty = Inl ValueError"
    by (simp add: init_window_def build_track_from_example_lap_def single_sample_lap_def
        np_gradient_def bind_res_def Let_def)
qed

text \<open>
  Claim C8, as amended. Neither operation divides by zero. In track construction every
  zero tangent length is replaced by 1 before the division, so no divisor is zero and the
  result is never a division error; construction succeeds on every lap of at least two
  samples, and a shorter lap (a single sample included) is rejected with \<open>ValueError\<close>
  by the gradient. Viewport recomputation floors the world width and height at 1 before
  dividing and succeeds on every input.
\<close>

theorem no_division_by_zero:
  "(\<exists>w'. update_scaling w sw sh = Inr w') \<and>
   1 \<le> max 1 (x_max w - x_min w) \<and> 1 \<le> max 1 (y_max w - y_min w) \<and>
   py_div a (max 1 b) = Inr (a / max 1 b) \<and>
   (\<forall>n\<in>set (guard_zero ns). n \<noteq> 0) \<and>
   (\<forall>i<length ns. guard_zero ns ! i = (if ns ! i = 0 then 1 else ns ! i)) \<and>
   div_arrays ds (guard_zero ns) \<noteq> Inl ZeroDivisionError \<and>
   build_track_from_example_lap lap' tw \<noteq> Inl ZeroDivisionError \<and>
   (2 \<le> length lap' \<longrightarrow> (\<exists>r. build_track_from_example_lap lap' tw = Inr r)) \<and>
   (length lap' < 2 \<longrightarrow> build_track_from_example_lap lap' tw = Inl ValueError)"
proof (intro conjI impI)
  show "\<exists>w'. update_scaling w sw sh = Inr w'"
    using update_scaling_total [of w sw sh] by blast
  show "1 \<le> max 1 (x_max w - x_min w)" and "1 \<le> max 1 (y_max w - y_min w)"
    by simp_all
  show "py_div a (max 1 b) = Inr (a / max 1 b)"
    by (rule py_div_max_one)
  show nz: "\<forall>n\<in>set (guard_zero ns). n \<noteq> 0"
    using guard_zero_nonzero by blast
  show "\<forall>i<length ns. guard_zero ns ! i = (if ns ! i = 0 then 1 else ns ! i)"
    by (simp add: guard_zero_def)
  show "div_arrays ds (guard_zero ns) \<noteq> Inl ZeroDivisionError"
    using nz by (rule div_arrays_never_zero_division)
  show "build_track_from_example_lap lap' tw \<noteq> Inl ZeroDivisionError"
  proof (cases "2 \<le> length lap'")
    case True
    from build_track_ok [OF True, of tw] show ?thesis by auto
  next
    case False
    then have "length lap' < 2" by simp
    then show ?thesis by (simp add: build_track_short)
  qed
next
  assume "2 \<le> length lap'"
  from build_track_ok [OF this, of tw] show "\<exists>r. build_track_from_example_lap lap' tw = Inr r"
    by blast
next
  assume "length lap' < 2"
  then show "build_track_from_example_lap lap' tw = Inl ValueError"
    by (rule build_track_short)
qed

theorem no_division_by_zero_witness:
  "(\<exists>w'. update_scaling viewport_window 1920 1200 = Inr w') \<and>
   py_div 1728 (max 1 (100 - 100)) = Inr 1728 \<and>
   guard_zero [0, 5] = [1, 5] \<and>
   div_arrays [0, 3] (guard_zero [0, 5]) = Inr [0, 3 / 5] \<and>
   (\<exists>r. build_track_from_example_lap straight_lap 200 = Inr r) \<and>
   build_track_from_example_lap single_sample_lap 200 = Inl ValueError"
proof -
  note inst = no_division_by_zero
    [of viewport_window 1920 1200 1728 0 "[0, 5]" "[0, 3]" straight_lap 200]
  note inst' = no_division_by_zero
    [of viewport_window 1920 1200 1728 0 "[0, 5]" "[0, 3]" single_sample_lap 200]
  from inst have u: "\<exists>w'. update_scaling viewport_window 1920 1200 = Inr w'"
    by blast
  from inst have "py_div 1728 (max 1 0) = Inr (1728 / max 1 0)"
    by blast
  then have p: "py_div 1728 (max 1 (100 - 100)) = Inr 1728"
    by simp
  from inst have "\<forall>i<length [0, 5 :: real]. guard_zero [0, 5] ! i = (if [0, 5 :: real] ! i = 0 then 1 else [0, 5] ! i)"
    by blast
  then have "guard_zero [0, 5] ! 0 = 1" and "guard_zero [0, 5] ! 1 = 5"
    by force+
  moreover have "length (guard_zero [0, 5]) = 2"
    by (simp add: length_guard_zero)
  ultimately have g: "guard_zero [0, 5] = [1, 5]"
    by (intro nth_equalityI) (auto simp: less_Suc_eq numeral_2_eq_2)
  from inst have "div_arrays [0, 3] (guard_zero [0, 5]) \<noteq> Inl ZeroDivisionError"
    by blast
  then have d: "div_arrays [0, 3] (guard_zero [0, 5]) = Inr [0, 3 / 5]"
    unfolding g by (simp add: py_div_def bind_res_def)
  have "2 \<le> length straight_lap"
    by (simp add: straight_lap_def)
  with inst have b: "\<exists>r. build_track_from_example_lap straight_lap 200 = Inr r"
    by blast
  have "length single_sample_lap < 2"
    by (simp add: single_sample_lap_def)
  with inst' have s: "build_track_from_example_lap single_sample_lap 200 = Inl ValueError"
    by blast
  from u p g d b s show ?thesis by blast
qed

text \<open>
  Track construction is not total on every non-empty lap: the lap of one sample is
  rejected (by the gradient, not by a division).
\<close>

theorem single_sample_lap_counterexample:
  "single_sample_lap \<noteq> [] \<and>
   build_track_from_example_lap single_sample_lap 200 = Inl ValueError"
  by (simp add: single_sample_lap_def build_track_from_example_lap_def np_gradient_def
      bind_res_def Let_def)

subsection \<open>A non-finite speed\<close>

lemma init_window_playback:
  assumes "init_window fr lap' sp col = Inr w"
  shows "playback_speed w = sp" and "paused w = False" and "frame_index w = 0"
    and "n_frames w = int (length fr)"
proof -
  from assms obtain px py xi yi xo yo xmin xmax ymin ymax where
    b: "build_track_from_example_lap lap' 200 = Inr (px, py, xi, yi, xo, yo, xmin, xmax, ymin, ymax)"
    by (cases "build_track_from_example_lap lap' 200")
       (auto simp: init_window_def bind_res_def)
  from assms b obtain inner where i: "interpolate_points xi yi 2000 = Inr inner"
    by (cases "interpolate_points xi yi 2000") (auto simp: init_window_def bind_res_def)
  from assms b i obtain outer where o: "interpolate_points xo yo 2000 = Inr outer"
    by (cases "interpolate_points xo yo 2000") (auto simp: init_window_def bind_res_def)
  from assms show "playback_speed w = sp" and "paused w = False" and "frame_index w = 0"
    and "n_frames w = int (length fr)"
    unfolding init_window_def b i o bind_res_def sum.case prod.case update_scaling_total
    by auto
qed

text \<open>
  The tick does not set the index in every unpaused state with the index in range: with
  an infinite speed the conversion of the speed raises \<open>OverflowError\<close>, with NaN
  \<open>ValueError\<close>. Such a speed reaches the window through its constructor.
\<close>

theorem tick_raises_counterexample:
  "on_update (float_window 100 0 PosInf False) = Inl OverflowError \<and>
   on_update (float_window 100 0 NaN False) = Inl ValueError \<and>
   \<not> paused (float_window 100 0 PosInf False) \<and>
   n_frames (float_window 100 0 PosInf False) = 100 \<and>
   frame_index (float_window 100 0 PosInf False) = 0 \<and>
   (case init_window [frame_abc] straight_lap PosInf Map.empty of
      Inl e \<Rightarrow> False
    | Inr w \<Rightarrow> \<not> paused w \<and> n_frames w = 1 \<and> frame_index w = 0 \<and>
        on_update w = Inl OverflowError)"
proof (intro conjI)
  show "on_update (float_window 100 0 PosInf False) = Inl OverflowError"
    and "on_update (float_window 100 0 NaN False) = Inl ValueError"
    by (simp_all add: on_update_def float_window_def bind_res_def)
  show "\<not> paused (float_window 100 0 PosInf False)"
    and "n_frames (float_window 100 0 PosInf False) = 100"
    and "frame_index (float_window 100 0 PosInf False) = 0"
    by (simp_all add: float_window_def)
  have "2 \<le> length straight_lap"
    by (simp add: straight_lap_def)
  from init_window_ok [OF this, of "[frame_abc]" PosInf Map.empty] obtain w where
    w: "init_window [frame_abc] straight_lap PosInf Map.empty = Inr w"
    by blast
  from init_window_playback [OF w] have f: "\<not> paused w" "playback_speed w = PosInf"
    "n_frames w = 1" "frame_index w = 0"
    by simp_all
  then have "on_update w = Inl OverflowError"
    by (simp add: on_update_not_finite)
  with w f show "case init_window [frame_abc] straight_lap PosInf Map.empty of
      Inl e \<Rightarrow> False
    | Inr w \<Rightarrow> \<not> paused w \<and> n_frames w = 1 \<and> frame_index w = 0 \<and>
        on_update w = Inl OverflowError"
    by simp
qed

end
